theory Spec2Isabelle
  imports Main
begin

section \<open>Go strings\<close>

text \<open>
  A Go string is a sequence of bytes, modelled as a \<open>string\<close>. The functions of package
  \<open>strings\<close> that the parser calls are written out below. \<open>TrimSpace\<close> and the functions
  that compare bytes are Go's on every string. \<open>ToUpper\<close> and \<open>ToLower\<close> are Go's on ASCII
  text: Go maps letters outside ASCII as well, which is not written out here, so every
  property below that depends on a case mapping is stated for ASCII text.
\<close>

definition dquote :: char where
  "dquote = CHR 0x22"

definition newline :: char where
  "newline = CHR 0x0A"

definition is_space :: "char \<Rightarrow> bool" where
  "is_space c = (c = CHR '' '' \<or> c = CHR 0x09 \<or> c = CHR 0x0A \<or> c = CHR 0x0B
     \<or> c = CHR 0x0C \<or> c = CHR 0x0D)"

definition is_digit :: "char \<Rightarrow> bool" where
  "is_digit c = (let n = (of_char c :: nat) in 48 \<le> n \<and> n \<le> 57)"

definition is_word :: "char \<Rightarrow> bool" where
  "is_word c = (let n = (of_char c :: nat) in
     (48 \<le> n \<and> n \<le> 57) \<or> (65 \<le> n \<and> n \<le> 90) \<or> n = 95 \<or> (97 \<le> n \<and> n \<le> 122))"

definition to_lower :: "char \<Rightarrow> char" where
  "to_lower c = (let n = (of_char c :: nat) in if 65 \<le> n \<and> n \<le> 90 then char_of (n + 32) else c)"

definition to_upper :: "char \<Rightarrow> char" where
  "to_upper c = (let n = (of_char c :: nat) in if 97 \<le> n \<and> n \<le> 122 then char_of (n - 32) else c)"

definition ToUpper :: "string \<Rightarrow> string" where
  "ToUpper s = map to_upper s"

definition ToLower :: "string \<Rightarrow> string" where
  "ToLower s = map to_lower s"

definition Trim :: "string \<Rightarrow> string \<Rightarrow> string" where
  "Trim s cutset =
     rev (dropWhile (\<lambda>c. c \<in> set cutset) (rev (dropWhile (\<lambda>c. c \<in> set cutset) s)))"

definition HasPrefix :: "string \<Rightarrow> string \<Rightarrow> bool" where
  "HasPrefix s p = (take (length p) s = p)"

definition HasSuffix :: "string \<Rightarrow> string \<Rightarrow> bool" where
  "HasSuffix s p = (length p \<le> length s \<and> drop (length s - length p) s = p)"

text \<open>
  \<open>strings.TrimSpace\<close> removes the white-space runes at both ends, as \<open>unicode.IsSpace\<close>
  defines them: the six of ASCII, U+0085, U+00A0, U+1680, U+2000 to U+200A, U+2028, U+2029,
  U+202F, U+205F and U+3000. \<open>space_runes\<close> lists their UTF-8 encodings. Go decodes the rune
  at the head of the string, and the rune that ends at its last byte; either is a
  white-space rune exactly when the string starts, or ends, with one of these encodings.
\<close>

definition space_runes :: "string list" where
  "space_runes =
     [[CHR 0x09], [CHR 0x0A], [CHR 0x0B], [CHR 0x0C], [CHR 0x0D], [CHR 0x20],
      [CHR 0xC2, CHR 0x85], [CHR 0xC2, CHR 0xA0], [CHR 0xE1, CHR 0x9A, CHR 0x80],
      [CHR 0xE2, CHR 0x80, CHR 0x80], [CHR 0xE2, CHR 0x80, CHR 0x81], [CHR 0xE2, CHR 0x80, CHR 0x82],
      [CHR 0xE2, CHR 0x80, CHR 0x83], [CHR 0xE2, CHR 0x80, CHR 0x84], [CHR 0xE2, CHR 0x80, CHR 0x85],
      [CHR 0xE2, CHR 0x80, CHR 0x86], [CHR 0xE2, CHR 0x80, CHR 0x87], [CHR 0xE2, CHR 0x80, CHR 0x88],
      [CHR 0xE2, CHR 0x80, CHR 0x89], [CHR 0xE2, CHR 0x80, CHR 0x8A], [CHR 0xE2, CHR 0x80, CHR 0xA8],
      [CHR 0xE2, CHR 0x80, CHR 0xA9], [CHR 0xE2, CHR 0x80, CHR 0xAF], [CHR 0xE2, CHR 0x81, CHR 0x9F],
      [CHR 0xE3, CHR 0x80, CHR 0x80]]"

function trim_runes :: "string list \<Rightarrow> string \<Rightarrow> string" where
  "trim_runes rs s =
     (case find (\<lambda>r. r \<noteq> [] \<and> HasPrefix s r) rs of
        Some r \<Rightarrow> trim_runes rs (drop (length r) s)
      | None \<Rightarrow> s)"
  by pat_completeness auto
termination
proof (relation "measure (\<lambda>(rs, s). length s)")
  show "wf (measure (\<lambda>(rs, s). length s))" by simp
next
  fix rs :: "string list" and s r :: string
  assume "find (\<lambda>r. r \<noteq> [] \<and> HasPrefix s r) rs = Some r"
  then have r: "r \<noteq> []" "take (length r) s = r"
    by (auto simp: find_Some_iff HasPrefix_def)
  from r(2) have "length (take (length r) s) = length r" by simp
  then have "length r \<le> length s" by simp
  moreover from r(1) have "0 < length r" by simp
  ultimately have "length s - length r < length s" by arith
  then show "((rs, drop (length r) s), (rs, s)) \<in> measure (\<lambda>(rs, s). length s)" by simp
qed

definition TrimSpace :: "string \<Rightarrow> string" where
  "TrimSpace s = rev (trim_runes (map rev space_runes) (rev (trim_runes space_runes s)))"

definition TrimPrefix :: "string \<Rightarrow> string \<Rightarrow> string" where
  "TrimPrefix s p = (if HasPrefix s p then drop (length p) s else s)"

definition TrimSuffix :: "string \<Rightarrow> string \<Rightarrow> string" where
  "TrimSuffix s p = (if HasSuffix s p then take (length s - length p) s else s)"

text \<open>\<open>strings.Index\<close>: the byte offset of the first occurrence, \<open>None\<close> for Go's \<open>-1\<close>.\<close>

fun Index :: "string \<Rightarrow> string \<Rightarrow> nat option" where
  "Index [] sub = (if sub = [] then Some 0 else None)"
| "Index (x # xs) sub =
     (if HasPrefix (x # xs) sub then Some 0 else map_option Suc (Index xs sub))"

definition Contains :: "string \<Rightarrow> string \<Rightarrow> bool" where
  "Contains s sub = (Index s sub \<noteq> None)"

text \<open>\<open>strings.Split\<close>; every call of the parser passes a separator of one byte.\<close>

fun Split :: "string \<Rightarrow> char \<Rightarrow> string list" where
  "Split [] sep = [[]]"
| "Split (x # xs) sep =
     (if x = sep then [] # Split xs sep
      else (case Split xs sep of
              p # ps \<Rightarrow> (x # p) # ps
            | [] \<Rightarrow> [[x]]))"

fun Join :: "string list \<Rightarrow> string \<Rightarrow> string" where
  "Join [] sep = []"
| "Join [p] sep = p"
| "Join (p # q # ps) sep = p @ sep @ Join (q # ps) sep"

text \<open>\<open>strings.ReplaceAll(s, "  ", " ")\<close>: non-overlapping pairs of blanks, left to right.\<close>

fun ReplaceAll_2sp :: "string \<Rightarrow> string" where
  "ReplaceAll_2sp (a # b # xs) =
     (if a = CHR '' '' \<and> b = CHR '' '' then CHR '' '' # ReplaceAll_2sp xs
      else a # ReplaceAll_2sp (b # xs))"
| "ReplaceAll_2sp xs = xs"

text \<open>
  \<open>strconv.ParseInt(s, 10, 64)\<close>: an optional sign, then decimal digits only; a value
  outside the 64-bit range is an error, as is the empty digit string.
\<close>

definition digits_val :: "string \<Rightarrow> nat" where
  "digits_val ds = foldl (\<lambda>acc c. 10 * acc + (of_char c - 48)) 0 ds"

definition ParseInt :: "string \<Rightarrow> int option" where
  "ParseInt s =
     (let neg = (s \<noteq> [] \<and> hd s = CHR ''-'');
          ds = (if s \<noteq> [] \<and> (hd s = CHR ''-'' \<or> hd s = CHR ''+'') then tl s else s)
      in if ds = [] \<or> \<not> list_all is_digit ds then None
         else let v = (if neg then - int (digits_val ds) else int (digits_val ds))
              in if - 9223372036854775808 \<le> v \<and> v \<le> 9223372036854775807 then Some v else None)"

section \<open>Regular expressions\<close>

text \<open>
  Package \<open>regexp\<close> returns the leftmost match and, among the matches that start there, the
  one a backtracking search finds first. The matcher below is that backtracking search, in
  continuation-passing style. Repetition is only ever applied to a single character class
  in the parser's patterns, so \<open>Star\<close> and \<open>StarLazy\<close> take a class.
  \<open>\s\<close>, \<open>\w\<close>, \<open>\d\<close> and \<open>\b\<close> are ASCII in Go; under \<open>(?i)\<close> a letter matches both of
  its ASCII cases.
\<close>

datatype cclass =
    CLit char
  | CLitI char
  | CSpace
  | CWord
  | CDigit
  | CDot
  | COr cclass cclass
  | CNeg cclass

fun cmatch :: "cclass \<Rightarrow> char \<Rightarrow> bool" where
  "cmatch (CLit c) x = (x = c)"
| "cmatch (CLitI c) x = (to_lower x = to_lower c)"
| "cmatch CSpace x = (x = CHR '' '' \<or> x = CHR 0x09 \<or> x = CHR 0x0A \<or> x = CHR 0x0C \<or> x = CHR 0x0D)"
| "cmatch CWord x = is_word x"
| "cmatch CDigit x = is_digit x"
| "cmatch CDot x = (x \<noteq> CHR 0x0A)"
| "cmatch (COr a b) x = (cmatch a x \<or> cmatch b x)"
| "cmatch (CNeg a) x = (\<not> cmatch a x)"

datatype regex =
    Eps
  | Ch cclass
  | Seq regex regex
  | Alt regex regex
  | Star cclass
  | StarLazy cclass
  | Grp nat regex
  | Bol
  | Eol
  | Wb

type_synonym caps = "(nat \<times> nat \<times> nat) list"

text \<open>
  A matcher state: the byte offset reached, the byte before it (for \<open>\b\<close>), the text still
  to read, and the capture groups closed so far (group, start offset, end offset), the
  latest first.
\<close>

datatype mstate = MState (m_pos: nat) (m_prev: "char option") (m_rest: string) (m_caps: caps)

fun star_greedy ::
  "cclass \<Rightarrow> nat \<Rightarrow> char option \<Rightarrow> string \<Rightarrow> caps \<Rightarrow> (mstate \<Rightarrow> mstate option) \<Rightarrow> mstate option" where
  "star_greedy c p pv [] cs k = k (MState p pv [] cs)"
| "star_greedy c p pv (x # xs) cs k =
     (if cmatch c x then
        (case star_greedy c (Suc p) (Some x) xs cs k of
           Some r \<Rightarrow> Some r
         | None \<Rightarrow> k (MState p pv (x # xs) cs))
      else k (MState p pv (x # xs) cs))"

fun star_lazy ::
  "cclass \<Rightarrow> nat \<Rightarrow> char option \<Rightarrow> string \<Rightarrow> caps \<Rightarrow> (mstate \<Rightarrow> mstate option) \<Rightarrow> mstate option" where
  "star_lazy c p pv [] cs k = k (MState p pv [] cs)"
| "star_lazy c p pv (x # xs) cs k =
     (case k (MState p pv (x # xs) cs) of
        Some r \<Rightarrow> Some r
      | None \<Rightarrow> if cmatch c x then star_lazy c (Suc p) (Some x) xs cs k else None)"

definition at_word_boundary :: "char option \<Rightarrow> string \<Rightarrow> bool" where
  "at_word_boundary pv rest =
     ((case pv of None \<Rightarrow> False | Some c \<Rightarrow> is_word c) \<noteq>
      (case rest of [] \<Rightarrow> False | c # _ \<Rightarrow> is_word c))"

fun rmatch :: "regex \<Rightarrow> mstate \<Rightarrow> (mstate \<Rightarrow> mstate option) \<Rightarrow> mstate option" where
  "rmatch Eps (MState p pv rest cs) k = k (MState p pv rest cs)"
| "rmatch (Ch c) (MState p pv [] cs) k = None"
| "rmatch (Ch c) (MState p pv (x # xs) cs) k =
     (if cmatch c x then k (MState (Suc p) (Some x) xs cs) else None)"
| "rmatch (Seq a b) (MState p pv rest cs) k =
     rmatch a (MState p pv rest cs) (\<lambda>st'. rmatch b st' k)"
| "rmatch (Alt a b) (MState p pv rest cs) k =
     (case rmatch a (MState p pv rest cs) k of
        Some r \<Rightarrow> Some r
      | None \<Rightarrow> rmatch b (MState p pv rest cs) k)"
| "rmatch (Star c) (MState p pv rest cs) k = star_greedy c p pv rest cs k"
| "rmatch (StarLazy c) (MState p pv rest cs) k = star_lazy c p pv rest cs k"
| "rmatch (Grp n r) (MState p pv rest cs) k =
     rmatch r (MState p pv rest cs)
       (\<lambda>st'. k (MState (m_pos st') (m_prev st') (m_rest st') ((n, p, m_pos st') # m_caps st')))"
| "rmatch Bol (MState p pv rest cs) k = (if p = 0 then k (MState p pv rest cs) else None)"
| "rmatch Eol (MState p pv rest cs) k = (if rest = [] then k (MState p pv rest cs) else None)"
| "rmatch Wb (MState p pv rest cs) k =
     (if at_word_boundary pv rest then k (MState p pv rest cs) else None)"

text \<open>The unanchored search: the first start offset, left to right, at which a match exists.\<close>

fun search_from :: "regex \<Rightarrow> nat \<Rightarrow> char option \<Rightarrow> string \<Rightarrow> caps option" where
  "search_from r p pv [] =
     (case rmatch r (MState p pv [] []) Some of
        Some st \<Rightarrow> Some ((0, p, m_pos st) # m_caps st)
      | None \<Rightarrow> None)"
| "search_from r p pv (x # xs) =
     (case rmatch r (MState p pv (x # xs) []) Some of
        Some st \<Rightarrow> Some ((0, p, m_pos st) # m_caps st)
      | None \<Rightarrow> search_from r (Suc p) (Some x) xs)"

text \<open>
  \<open>FindStringSubmatchIndex\<close>: the offsets of the match (group 0) and of each group that
  took part. \<open>grp s m n\<close> is the text \<open>m[n]\<close> of \<open>FindStringSubmatch\<close>, empty for a group that
  took no part.
\<close>

definition FindIndex :: "regex \<Rightarrow> string \<Rightarrow> caps option" where
  "FindIndex r s = search_from r 0 None s"

definition MatchString :: "regex \<Rightarrow> string \<Rightarrow> bool" where
  "MatchString r s = (FindIndex r s \<noteq> None)"

definition grp :: "string \<Rightarrow> caps \<Rightarrow> nat \<Rightarrow> string" where
  "grp s m n = (case map_of m n of None \<Rightarrow> [] | Some (b, e) \<Rightarrow> take (e - b) (drop b s))"

definition lit :: "string \<Rightarrow> regex" where
  "lit s = foldr (\<lambda>c r. Seq (Ch (CLit c)) r) s Eps"

definition lit_i :: "string \<Rightarrow> regex" where
  "lit_i s = foldr (\<lambda>c r. Seq (Ch (CLitI c)) r) s Eps"

definition plus :: "cclass \<Rightarrow> regex" where
  "plus c = Seq (Ch c) (Star c)"

definition plus_lazy :: "cclass \<Rightarrow> regex" where
  "plus_lazy c = Seq (Ch c) (StarLazy c)"

definition opt :: "regex \<Rightarrow> regex" where
  "opt r = Alt r Eps"

definition seqs :: "regex list \<Rightarrow> regex" where
  "seqs rs = foldr Seq rs Eps"

fun alts :: "regex list \<Rightarrow> regex" where
  "alts [] = Eps"
| "alts [r] = r"
| "alts (r # rs) = Alt r (alts rs)"

definition ws0 :: regex where
  "ws0 = Star CSpace"

definition ws1 :: regex where
  "ws1 = plus CSpace"

text \<open>\<open>[\w"]+\<close> and \<open>[\w"]+(?:\.[\w"]+)?\<close>.\<close>

definition ident :: regex where
  "ident = plus (COr CWord (CLit dquote))"

definition qname :: regex where
  "qname = Seq ident (opt (Seq (Ch (CLit CHR ''.'')) ident))"

definition nonspace1 :: regex where
  "nonspace1 = plus (CNeg CSpace)"


subsection \<open>The parser's patterns\<close>

definition squote :: char where
  "squote = CHR 0x27"

definition if_not_exists :: regex where
  "if_not_exists = opt (seqs [lit_i ''IF'', ws1, lit_i ''NOT'', ws1, lit_i ''EXISTS'', ws1])"

definition only_opt :: regex where
  "only_opt = opt (seqs [lit_i ''ONLY'', ws1])"

text \<open>\<^verbatim>\<open>--\s*Dumped from database version (\S+)\<close>\<close>

definition rePgVersion :: regex where
  "rePgVersion = seqs [lit ''--'', ws0, lit ''Dumped from database version '', Grp 1 nonspace1]"

text \<open>\<^verbatim>\<open>(?i)SELECT\s+pg_catalog\.set_config\(\s*'search_path'\s*,\s*'([^']*)'\s*|SET\s+search_path\s*=\s*(.+?)\s*;\<close>\<close>

definition reSetSearchPath :: regex where
  "reSetSearchPath =
     Alt (seqs [lit_i ''SELECT'', ws1, lit_i ''pg_catalog.set_config('', ws0,
                lit_i (squote # ''search_path'' @ [squote]), ws0, lit_i '','', ws0,
                lit_i [squote], Grp 1 (Star (CNeg (CLit squote))), lit_i [squote], ws0])
         (seqs [lit_i ''SET'', ws1, lit_i ''search_path'', ws0, lit_i ''='', ws0,
                Grp 2 (plus_lazy CDot), ws0, lit_i '';''])"

text \<open>\<^verbatim>\<open>(?i)CREATE\s+EXTENSION\s+(?:IF\s+NOT\s+EXISTS\s+)?(\S+)(?:\s+(?:WITH\s+)?SCHEMA\s+(\S+))?\<close>\<close>

definition reCreateExtension :: regex where
  "reCreateExtension =
     seqs [lit_i ''CREATE'', ws1, lit_i ''EXTENSION'', ws1, if_not_exists, Grp 1 nonspace1,
           opt (seqs [ws1, opt (seqs [lit_i ''WITH'', ws1]), lit_i ''SCHEMA'', ws1, Grp 2 nonspace1])]"

text \<open>\<^verbatim>\<open>(?i)CREATE\s+(UNLOGGED\s+)?TABLE\s+(?:IF\s+NOT\s+EXISTS\s+)?([\w"]+(?:\.[\w"]+)?)\s*\(\<close>\<close>

definition reCreateTable :: regex where
  "reCreateTable =
     seqs [lit_i ''CREATE'', ws1, opt (Grp 1 (seqs [lit_i ''UNLOGGED'', ws1])), lit_i ''TABLE'', ws1,
           if_not_exists, Grp 2 qname, ws0, lit_i ''('']"

text \<open>\<^verbatim>\<open>(?i)CREATE\s+SEQUENCE\s+(?:IF\s+NOT\s+EXISTS\s+)?([\w"]+(?:\.[\w"]+)?)\<close>\<close>

definition reCreateSequence :: regex where
  "reCreateSequence =
     seqs [lit_i ''CREATE'', ws1, lit_i ''SEQUENCE'', ws1, if_not_exists, Grp 1 qname]"

text \<open>\<^verbatim>\<open>(PRIMARY\s+KEY|UNIQUE|FOREIGN\s+KEY|EXCLUDE|CHECK)\<close>\<close>

definition constraint_kind :: regex where
  "constraint_kind =
     alts [seqs [lit_i ''PRIMARY'', ws1, lit_i ''KEY''], lit_i ''UNIQUE'',
           seqs [lit_i ''FOREIGN'', ws1, lit_i ''KEY''], lit_i ''EXCLUDE'', lit_i ''CHECK'']"

text \<open>\<^verbatim>\<open>(?i)ALTER\s+TABLE\s+(?:ONLY\s+)?([\w"]+(?:\.[\w"]+)?)\s+ADD\s+CONSTRAINT\s+([\w"]+)\s+(PRIMARY\s+KEY|UNIQUE|FOREIGN\s+KEY|EXCLUDE|CHECK)\<close>\<close>

definition reAlterAddConstraint :: regex where
  "reAlterAddConstraint =
     seqs [lit_i ''ALTER'', ws1, lit_i ''TABLE'', ws1, only_opt, Grp 1 qname, ws1, lit_i ''ADD'', ws1,
           lit_i ''CONSTRAINT'', ws1, Grp 2 ident, ws1, Grp 3 constraint_kind]"

text \<open>\<^verbatim>\<open>(?i)CREATE\s+(UNIQUE\s+)?INDEX\s+(?:IF\s+NOT\s+EXISTS\s+)?([\w"]+)\s+ON\s+(?:ONLY\s+)?([\w"]+(?:\.[\w"]+)?)\<close>\<close>

definition reCreateIndex :: regex where
  "reCreateIndex =
     seqs [lit_i ''CREATE'', ws1, opt (Grp 1 (seqs [lit_i ''UNIQUE'', ws1])), lit_i ''INDEX'', ws1,
           if_not_exists, Grp 2 ident, ws1, lit_i ''ON'', ws1, only_opt, Grp 3 qname]"

text \<open>\<^verbatim>\<open>(?i)ALTER\s+TABLE\s+(?:ONLY\s+)?([\w"]+(?:\.[\w"]+)?)\s+ALTER\s+COLUMN\s+([\w"]+)\s+SET\s+DEFAULT\s+(.+?)\s*;\<close>\<close>

definition reAlterSetDefault :: regex where
  "reAlterSetDefault =
     seqs [lit_i ''ALTER'', ws1, lit_i ''TABLE'', ws1, only_opt, Grp 1 qname, ws1, lit_i ''ALTER'', ws1,
           lit_i ''COLUMN'', ws1, Grp 2 ident, ws1, lit_i ''SET'', ws1, lit_i ''DEFAULT'', ws1,
           Grp 3 (plus_lazy CDot), ws0, lit_i '';'']"

text \<open>\<^verbatim>\<open>(ALWAYS|BY\s+DEFAULT)\<close>\<close>

definition identity_kind :: regex where
  "identity_kind = alts [lit_i ''ALWAYS'', seqs [lit_i ''BY'', ws1, lit_i ''DEFAULT'']]"

text \<open>\<^verbatim>\<open>(?i)ALTER\s+TABLE\s+(?:ONLY\s+)?([\w"]+(?:\.[\w"]+)?)\s+ALTER\s+COLUMN\s+([\w"]+)\s+ADD\s+GENERATED\s+(ALWAYS|BY\s+DEFAULT)\s+AS\s+IDENTITY\<close>\<close>

definition reAlterAddIdentity :: regex where
  "reAlterAddIdentity =
     seqs [lit_i ''ALTER'', ws1, lit_i ''TABLE'', ws1, only_opt, Grp 1 qname, ws1, lit_i ''ALTER'', ws1,
           lit_i ''COLUMN'', ws1, Grp 2 ident, ws1, lit_i ''ADD'', ws1, lit_i ''GENERATED'', ws1,
           Grp 3 identity_kind, ws1, lit_i ''AS'', ws1, lit_i ''IDENTITY'']"

text \<open>\<^verbatim>\<open>(?i)ALTER\s+SEQUENCE\s+([\w"]+(?:\.[\w"]+)?)\s+OWNED\s+BY\s+([\w"]+(?:\.[\w"]+)?)\.([\w"]+)\<close>\<close>

definition reAlterSeqOwned :: regex where
  "reAlterSeqOwned =
     seqs [lit_i ''ALTER'', ws1, lit_i ''SEQUENCE'', ws1, Grp 1 qname, ws1, lit_i ''OWNED'', ws1,
           lit_i ''BY'', ws1, Grp 2 qname, lit_i ''.'', Grp 3 ident]"

text \<open>\<^verbatim>\<open>(?i)CREATE\s+TYPE\s+([\w"]+(?:\.[\w"]+)?)\s+AS\s+ENUM\s*\(\<close>\<close>

definition reCreateTypeEnum :: regex where
  "reCreateTypeEnum =
     seqs [lit_i ''CREATE'', ws1, lit_i ''TYPE'', ws1, Grp 1 qname, ws1, lit_i ''AS'', ws1,
           lit_i ''ENUM'', ws0, lit_i ''('']"

text \<open>\<^verbatim>\<open>(?i)CREATE\s+(?:OR\s+REPLACE\s+)?RULE\s+([\w"]+)\s+AS\s+ON\s+(\w+)\s+TO\s+([\w"]+(?:\.[\w"]+)?)\s+DO\s+(INSTEAD\s+)?\<close>\<close>

definition reCreateRule :: regex where
  "reCreateRule =
     seqs [lit_i ''CREATE'', ws1, opt (seqs [lit_i ''OR'', ws1, lit_i ''REPLACE'', ws1]), lit_i ''RULE'', ws1,
           Grp 1 ident, ws1, lit_i ''AS'', ws1, lit_i ''ON'', ws1, Grp 2 (plus CWord), ws1, lit_i ''TO'', ws1,
           Grp 3 qname, ws1, lit_i ''DO'', ws1, opt (Grp 4 (seqs [lit_i ''INSTEAD'', ws1]))]"

text \<open>\<^verbatim>\<open>(?i)REFERENCES\s+([\w"]+(?:\.[\w"]+)?)\s*\(([^)]+)\)\<close>\<close>

definition reFkReferences :: regex where
  "reFkReferences =
     seqs [lit_i ''REFERENCES'', ws1, Grp 1 qname, ws0, lit_i ''('',
           Grp 2 (plus (CNeg (CLit CHR '')''))), lit_i '')'']"

text \<open>\<^verbatim>\<open>(CASCADE|SET\s+NULL|SET\s+DEFAULT|RESTRICT|NO\s+ACTION)\<close>\<close>

definition fk_action :: regex where
  "fk_action =
     alts [lit_i ''CASCADE'', seqs [lit_i ''SET'', ws1, lit_i ''NULL''],
           seqs [lit_i ''SET'', ws1, lit_i ''DEFAULT''], lit_i ''RESTRICT'',
           seqs [lit_i ''NO'', ws1, lit_i ''ACTION'']]"

text \<open>\<^verbatim>\<open>(?i)ON\s+DELETE\s+(CASCADE|SET\s+NULL|SET\s+DEFAULT|RESTRICT|NO\s+ACTION)\<close>, and the same with \<open>UPDATE\<close>.\<close>

definition reFkOnDelete :: regex where
  "reFkOnDelete = seqs [lit_i ''ON'', ws1, lit_i ''DELETE'', ws1, Grp 1 fk_action]"

definition reFkOnUpdate :: regex where
  "reFkOnUpdate = seqs [lit_i ''ON'', ws1, lit_i ''UPDATE'', ws1, Grp 1 fk_action]"

text \<open>\<^verbatim>\<open>^\s*([\w"]+)\s+(.+)$\<close>\<close>

definition reColumnLine :: regex where
  "reColumnLine = seqs [Bol, ws0, Grp 1 ident, ws1, Grp 2 (plus CDot), Eol]"

text \<open>\<^verbatim>\<open>(?i)\bNOT\s+NULL\b\<close>\<close>

definition reNotNull :: regex where
  "reNotNull = seqs [Wb, lit_i ''NOT'', ws1, lit_i ''NULL'', Wb]"

text \<open>\<^verbatim>\<open>(?i)\bDEFAULT\s+(.+?)(?:\s+NOT\s+NULL|\s+NULL|\s*,?\s*$)\<close>\<close>

definition reDefault :: regex where
  "reDefault =
     seqs [Wb, lit_i ''DEFAULT'', ws1, Grp 1 (plus_lazy CDot),
           alts [seqs [ws1, lit_i ''NOT'', ws1, lit_i ''NULL''],
                 seqs [ws1, lit_i ''NULL''],
                 seqs [ws0, opt (lit_i '',''), ws0, Eol]]]"

text \<open>\<^verbatim>\<open>(?i)\bGENERATED\s+ALWAYS\s+AS\s*\((.+?)\)\s+STORED\<close>\<close>

definition reGenerated :: regex where
  "reGenerated =
     seqs [Wb, lit_i ''GENERATED'', ws1, lit_i ''ALWAYS'', ws1, lit_i ''AS'', ws0, lit_i ''('',
           Grp 1 (plus_lazy CDot), lit_i '')'', ws1, lit_i ''STORED'']"

text \<open>\<^verbatim>\<open>(?i)\bGENERATED\s+(ALWAYS|BY\s+DEFAULT)\s+AS\s+IDENTITY\<close>\<close>

definition reIdentityInline :: regex where
  "reIdentityInline =
     seqs [Wb, lit_i ''GENERATED'', ws1, Grp 1 identity_kind, ws1, lit_i ''AS'', ws1, lit_i ''IDENTITY'']"

text \<open>\<^verbatim>\<open>(?i)^\s*(PRIMARY\s+KEY|UNIQUE|FOREIGN\s+KEY|EXCLUDE|CHECK|CONSTRAINT)\b\<close>\<close>

definition reTableConstraintKw :: regex where
  "reTableConstraintKw =
     seqs [Bol, ws0,
           Grp 1 (alts [seqs [lit_i ''PRIMARY'', ws1, lit_i ''KEY''], lit_i ''UNIQUE'',
                        seqs [lit_i ''FOREIGN'', ws1, lit_i ''KEY''], lit_i ''EXCLUDE'', lit_i ''CHECK'',
                        lit_i ''CONSTRAINT'']),
           Wb]"

text \<open>\<^verbatim>\<open>(\$[\w]*\$)\<close>\<close>

definition reDollarQuote :: regex where
  "reDollarQuote = Grp 1 (seqs [lit ''$'', Star CWord, lit ''$''])"

text \<open>
  \<^verbatim>\<open>(?i)\bAS\s+(smallint|integer|bigint)\b\<close>, \<^verbatim>\<open>(?i)\bSTART\s+WITH\s+(\d+)\<close>,
  \<^verbatim>\<open>(?i)\bINCREMENT\s+BY\s+(\d+)\<close>, \<^verbatim>\<open>(?i)\bMINVALUE\s+(\d+)\<close>, \<^verbatim>\<open>(?i)\bMAXVALUE\s+(\d+)\<close>,
  \<^verbatim>\<open>(?i)\bCYCLE\b\<close>, \<^verbatim>\<open>(?i)\bNO\s+CYCLE\b\<close>
\<close>

definition reSeqAs :: regex where
  "reSeqAs =
     seqs [Wb, lit_i ''AS'', ws1,
           Grp 1 (alts [lit_i ''smallint'', lit_i ''integer'', lit_i ''bigint'']), Wb]"

definition reSeqStart :: regex where
  "reSeqStart = seqs [Wb, lit_i ''START'', ws1, lit_i ''WITH'', ws1, Grp 1 (plus CDigit)]"

definition reSeqIncrement :: regex where
  "reSeqIncrement = seqs [Wb, lit_i ''INCREMENT'', ws1, lit_i ''BY'', ws1, Grp 1 (plus CDigit)]"

definition reSeqMinValue :: regex where
  "reSeqMinValue = seqs [Wb, lit_i ''MINVALUE'', ws1, Grp 1 (plus CDigit)]"

definition reSeqMaxValue :: regex where
  "reSeqMaxValue = seqs [Wb, lit_i ''MAXVALUE'', ws1, Grp 1 (plus CDigit)]"

definition reSeqCycle :: regex where
  "reSeqCycle = seqs [Wb, lit_i ''CYCLE'', Wb]"

definition reSeqNoCycle :: regex where
  "reSeqNoCycle = seqs [Wb, lit_i ''NO'', ws1, lit_i ''CYCLE'', Wb]"

text \<open>\<^verbatim>\<open>(?i)\)\s*INHERITS\s*\(([^)]+)\)\<close>\<close>

definition reInherits :: regex where
  "reInherits =
     seqs [lit_i '')'', ws0, lit_i ''INHERITS'', ws0, lit_i ''('',
           Grp 1 (plus (CNeg (CLit CHR '')''))), lit_i '')'']"

text \<open>\<^verbatim>\<open>(?i)\)\s*(?:INHERITS\s*\([^)]*\)\s*)?PARTITION\s+BY\s+(.+?)(?:\s*;|$)\<close>\<close>

definition rePartitionBy :: regex where
  "rePartitionBy =
     seqs [lit_i '')'', ws0,
           opt (seqs [lit_i ''INHERITS'', ws0, lit_i ''('', Star (CNeg (CLit CHR '')'')), lit_i '')'', ws0]),
           lit_i ''PARTITION'', ws1, lit_i ''BY'', ws1, Grp 1 (plus_lazy CDot),
           alts [seqs [ws0, lit_i '';''], Eol]]"

text \<open>\<^verbatim>\<open>(?i)\bUSING\s+(\w+)\<close>\<close>

definition reIndexMethod :: regex where
  "reIndexMethod = seqs [Wb, lit_i ''USING'', ws1, Grp 1 (plus CWord)]"

text \<open>\<^verbatim>\<open>(?i)\bDEFERRABLE\b\<close>, \<^verbatim>\<open>(?i)\bNOT\s+DEFERRABLE\b\<close>, \<^verbatim>\<open>(?i)\bINITIALLY\s+DEFERRED\b\<close>\<close>

definition reDeferrable :: regex where
  "reDeferrable = seqs [Wb, lit_i ''DEFERRABLE'', Wb]"

definition reNotDeferrable :: regex where
  "reNotDeferrable = seqs [Wb, lit_i ''NOT'', ws1, lit_i ''DEFERRABLE'', Wb]"

definition reInitiallyDeferred :: regex where
  "reInitiallyDeferred = seqs [Wb, lit_i ''INITIALLY'', ws1, lit_i ''DEFERRED'', Wb]"

text \<open>\<^verbatim>\<open>(?i)CONSTRAINT\s+([\w"]+)\s+\<close>\<close>

definition reConstraintName :: regex where
  "reConstraintName = seqs [lit_i ''CONSTRAINT'', ws1, Grp 1 ident, ws1]"

text \<open>\<^verbatim>\<open>(?i)^\s*CREATE\s\<close>, compiled inside the create-table branch.\<close>

definition reCreateStart :: regex where
  "reCreateStart = seqs [Bol, ws0, lit_i ''CREATE'', Ch CSpace]"


section \<open>The schema model (types.go)\<close>

record ColumnDef =
  Column_Name :: string
  Column_DataType :: string
  Column_NotNull :: bool
  Column_DefaultExpr :: string
  Column_Identity :: string
  Column_GeneratedExpr :: string

record ConstraintDef =
  Constraint_Name :: string
  Constraint_ConstraintType :: string
  Constraint_TableSchema :: string
  Constraint_TableName :: string
  Constraint_Columns :: "string list"
  Constraint_RefSchema :: string
  Constraint_RefTable :: string
  Constraint_RefColumns :: "string list"
  Constraint_OnDelete :: string
  Constraint_OnUpdate :: string
  Constraint_Deferrable :: bool
  Constraint_InitiallyDeferred :: bool

record IndexDef =
  Index_Name :: string
  Index_TableSchema :: string
  Index_TableName :: string
  Index_Columns :: "string list"
  Index_IsUnique :: bool
  Index_Method :: string

text \<open>The four \<open>*int64\<close> fields are \<open>int option\<close>: \<open>None\<close> is the nil pointer.\<close>

record SequenceDef =
  Sequence_SchemaName :: string
  Sequence_SequenceName :: string
  Sequence_DataType :: string
  Sequence_StartValue :: "int option"
  Sequence_Increment :: "int option"
  Sequence_MinValue :: "int option"
  Sequence_MaxValue :: "int option"
  Sequence_Cycle :: bool
  Sequence_OwnedByTable :: string
  Sequence_OwnedByColumn :: string

record TableDef =
  Table_SchemaName :: string
  Table_TableName :: string
  Table_Columns :: "ColumnDef list"
  Table_Unlogged :: bool
  Table_Inherits :: "string list"
  Table_PartitionBy :: string

record ExtensionDef =
  Extension_Name :: string
  Extension_SchemaName :: string

record EnumTypeDef =
  EnumType_SchemaName :: string
  EnumType_TypeName :: string
  EnumType_Labels :: "string list"

record RuleDef =
  Rule_SchemaName :: string
  Rule_TableName :: string
  Rule_RuleName :: string
  Rule_Event :: string
  Rule_IsInstead :: bool

record ParsedSchema =
  Tables :: "TableDef list"
  Constraints :: "ConstraintDef list"
  Indexes :: "IndexDef list"
  Sequences :: "SequenceDef list"
  Extensions :: "ExtensionDef list"
  EnumTypes :: "EnumTypeDef list"
  Rules :: "RuleDef list"
  PgVersion :: string

text \<open>\<open>&ParsedSchema{}\<close>: every container nil, the version string empty.\<close>

definition empty_schema :: ParsedSchema where
  "empty_schema =
     \<lparr>Tables = [], Constraints = [], Indexes = [], Sequences = [], Extensions = [],
      EnumTypes = [], Rules = [], PgVersion = []\<rparr>"

text \<open>
  \<open>GetTable\<close> returns \<open>&s.Tables[i]\<close> for the first \<open>i\<close> whose table has the schema and the
  name, or nil. The pointer is the index \<open>i\<close>; \<open>None\<close> is nil.
\<close>

fun find_table :: "TableDef list \<Rightarrow> string \<Rightarrow> string \<Rightarrow> nat \<Rightarrow> nat option" where
  "find_table [] schema name i = None"
| "find_table (t # ts) schema name i =
     (if Table_SchemaName t = schema \<and> Table_TableName t = name then Some i
      else find_table ts schema name (Suc i))"

definition GetTable :: "ParsedSchema \<Rightarrow> string \<Rightarrow> string \<Rightarrow> nat option" where
  "GetTable s schema name = find_table (Tables s) schema name 0"

definition GetConstraintsForTable ::
  "ParsedSchema \<Rightarrow> string \<Rightarrow> string \<Rightarrow> string \<Rightarrow> ConstraintDef list" where
  "GetConstraintsForTable s schema name constraintType =
     filter (\<lambda>c. Constraint_TableSchema c = schema \<and> Constraint_TableName c = name \<and>
                  (constraintType = [] \<or> Constraint_ConstraintType c = constraintType))
            (Constraints s)"

definition GetIndexesForTable :: "ParsedSchema \<Rightarrow> string \<Rightarrow> string \<Rightarrow> IndexDef list" where
  "GetIndexesForTable s schema name =
     filter (\<lambda>idx. Index_TableSchema idx = schema \<and> Index_TableName idx = name) (Indexes s)"

section \<open>The parser (parser.go)\<close>

definition excludedSchemas :: "string \<Rightarrow> bool" where
  "excludedSchemas s =
     (s = ''pg_catalog'' \<or> s = ''information_schema'' \<or> s = ''spock'' \<or> s = ''pg_toast'')"

text \<open>
  A slice expression \<open>s[lo:hi]\<close> with \<open>lo > hi\<close> or \<open>hi > len(s)\<close> is a run-time panic, which
  nothing in the parser recovers: it ends the whole parse.
\<close>

datatype panic = SliceBoundsOutOfRange

definition and_then :: "panic + 'a \<Rightarrow> ('a \<Rightarrow> panic + 'b) \<Rightarrow> panic + 'b" where
  "and_then m f = (case m of Inl e \<Rightarrow> Inl e | Inr x \<Rightarrow> f x)"

definition slice :: "string \<Rightarrow> nat \<Rightarrow> nat \<Rightarrow> panic + string" where
  "slice s lo hi =
     (if lo \<le> hi \<and> hi \<le> length s then Inr (take (hi - lo) (drop lo s))
      else Inl SliceBoundsOutOfRange)"

subsection \<open>Helper functions\<close>

text \<open>
  \<open>unquote\<close>: \<open>name[1 : len(name)-1]\<close> when the name starts and ends with a double quote.
  A name that starts with a quote has at least one byte, so \<open>len(name)-1\<close> is not negative.
\<close>

definition unquote :: "string \<Rightarrow> panic + string" where
  "unquote name =
     (if HasPrefix name [dquote] \<and> HasSuffix name [dquote] then slice name 1 (length name - 1)
      else Inr name)"

definition splitQualified :: "string \<Rightarrow> string \<Rightarrow> panic + (string \<times> string)" where
  "splitQualified name defaultSchema =
     (case Index name ''.'' of
        Some idx \<Rightarrow>
          and_then (unquote (take idx name)) (\<lambda>s.
          and_then (unquote (drop (Suc idx) name)) (\<lambda>n. Inr (s, n)))
      | None \<Rightarrow> and_then (unquote name) (\<lambda>n. Inr (defaultSchema, n)))"

fun unquote_cols :: "string list \<Rightarrow> panic + string list" where
  "unquote_cols [] = Inr []"
| "unquote_cols (c # cs) =
     (if TrimSpace c \<noteq> [] then
        and_then (unquote (TrimSpace c)) (\<lambda>u.
        and_then (unquote_cols cs) (\<lambda>us. Inr (u # us)))
      else unquote_cols cs)"

definition parseColumnList :: "string \<Rightarrow> panic + string list" where
  "parseColumnList text =
     unquote_cols (Split (TrimSuffix (TrimPrefix (TrimSpace text) ''('') '')'') CHR '','')"

text \<open>
  \<open>extractParenContent\<close> ranges over the runes of the text with their byte offsets and
  compares them with the two parentheses only. No byte of a rune of several bytes, and no
  byte that decodes to the replacement rune, is a parenthesis, so stepping byte by byte
  visits the same parentheses at the same offsets. \<open>start\<close> is \<open>None\<close> for Go's \<open>-1\<close>.
\<close>

fun epc_loop :: "string \<Rightarrow> nat \<Rightarrow> int \<Rightarrow> nat option \<Rightarrow> string \<Rightarrow> string" where
  "epc_loop [] i depth start text = []"
| "epc_loop (ch # rest) i depth start text =
     (if ch = CHR ''('' then
        epc_loop rest (Suc i) (depth + 1) (if depth = 0 then Some (Suc i) else start) text
      else if ch = CHR '')'' then
        (if depth - 1 = 0 \<and> start \<noteq> None then take (i - the start) (drop (the start) text)
         else epc_loop rest (Suc i) (depth - 1) start text)
      else epc_loop rest (Suc i) depth start text)"

definition extractParenContent :: "string \<Rightarrow> string" where
  "extractParenContent text = epc_loop text 0 0 None text"

text \<open>
  \<open>splitBodyParts\<close> ranges over the runes of the body and writes each one back with
  \<open>WriteRune\<close>. \<open>utf8_width\<close> is the length of the valid UTF-8 encoding at the head of a
  string, 0 when there is none; then Go's \<open>range\<close> yields the replacement rune U+FFFD and
  steps one byte, and \<open>WriteRune\<close> writes the three bytes of U+FFFD.
\<close>

definition is_ascii :: "char \<Rightarrow> bool" where
  "is_ascii c = ((of_char c :: nat) < 0x80)"

definition in_range :: "char \<Rightarrow> nat \<Rightarrow> nat \<Rightarrow> bool" where
  "in_range c lo hi = (lo \<le> of_char c \<and> (of_char c :: nat) \<le> hi)"

fun utf8_width :: "string \<Rightarrow> nat" where
  "utf8_width [] = 0"
| "utf8_width (b0 # bs) =
     (if is_ascii b0 then 1
      else if in_range b0 0xC2 0xDF then
        (case bs of
           b1 # _ \<Rightarrow> if in_range b1 0x80 0xBF then 2 else 0
         | _ \<Rightarrow> 0)
      else if in_range b0 0xE0 0xEF then
        (case bs of
           b1 # b2 # _ \<Rightarrow>
             if in_range b1 (if b0 = CHR 0xE0 then 0xA0 else 0x80) (if b0 = CHR 0xED then 0x9F else 0xBF)
                \<and> in_range b2 0x80 0xBF
             then 3 else 0
         | _ \<Rightarrow> 0)
      else if in_range b0 0xF0 0xF4 then
        (case bs of
           b1 # b2 # b3 # _ \<Rightarrow>
             if in_range b1 (if b0 = CHR 0xF0 then 0x90 else 0x80) (if b0 = CHR 0xF4 then 0x8F else 0xBF)
                \<and> in_range b2 0x80 0xBF \<and> in_range b3 0x80 0xBF
             then 4 else 0
         | _ \<Rightarrow> 0)
      else 0)"

definition rune_error :: string where
  "rune_error = [CHR 0xEF, CHR 0xBF, CHR 0xBD]"

function sbp_loop :: "string \<Rightarrow> string list \<Rightarrow> int \<Rightarrow> string \<Rightarrow> string list \<times> string" where
  "sbp_loop [] parts depth current = (parts, current)"
| "sbp_loop (b # bs) parts depth current =
     (if utf8_width (b # bs) = 0 then sbp_loop bs parts depth (current @ rune_error)
      else if 1 < utf8_width (b # bs) then
        sbp_loop (drop (utf8_width (b # bs)) (b # bs)) parts depth
                 (current @ take (utf8_width (b # bs)) (b # bs))
      else if b = CHR ''('' then sbp_loop bs parts (depth + 1) (current @ [b])
      else if b = CHR '')'' then sbp_loop bs parts (depth - 1) (current @ [b])
      else if b = CHR '','' then
        (if depth = 0 then sbp_loop bs (parts @ [current]) depth []
         else sbp_loop bs parts depth (current @ [b]))
      else sbp_loop bs parts depth (current @ [b]))"
  by pat_completeness auto
termination
  by (relation "measure (\<lambda>(s, parts, depth, current). length s)") auto

definition splitBodyParts :: "string \<Rightarrow> string list" where
  "splitBodyParts body =
     (case sbp_loop body [] 0 [] of
        (parts, current) \<Rightarrow> if current \<noteq> [] then parts @ [current] else parts)"


text \<open>\<open>loc[0]\<close>, \<open>len(m[0])\<close> and \<open>loc[2*n+1]\<close> of a match.\<close>

definition match_start :: "caps \<Rightarrow> nat" where
  "match_start m = (case map_of m 0 of Some (b, e) \<Rightarrow> b | None \<Rightarrow> 0)"

definition match_len :: "caps \<Rightarrow> nat" where
  "match_len m = (case map_of m 0 of Some (b, e) \<Rightarrow> e - b | None \<Rightarrow> 0)"

text \<open>\<open>s[loc[2*n+1]:]\<close>; the offset of a group that took no part is \<open>-1\<close>, and the slice panics.\<close>

definition after_group :: "string \<Rightarrow> caps \<Rightarrow> nat \<Rightarrow> panic + string" where
  "after_group s m n =
     (case map_of m n of
        Some (b, e) \<Rightarrow> slice s e (length s)
      | None \<Rightarrow> Inl SliceBoundsOutOfRange)"

subsection \<open>Columns and inline constraints\<close>

definition type_end :: "string \<Rightarrow> nat" where
  "type_end rest =
     foldl (\<lambda>typeEnd pat.
              case FindIndex pat rest of
                Some loc \<Rightarrow> if match_start loc < typeEnd then match_start loc else typeEnd
              | None \<Rightarrow> typeEnd)
           (length rest) [reNotNull, reDefault, reGenerated, reIdentityInline]"

definition constraint_keyword :: "string \<Rightarrow> bool" where
  "constraint_keyword upperName =
     (upperName = ''PRIMARY'' \<or> upperName = ''UNIQUE'' \<or> upperName = ''FOREIGN'' \<or>
      upperName = ''EXCLUDE'' \<or> upperName = ''CHECK'' \<or> upperName = ''CONSTRAINT'')"

definition parseColumn :: "string \<Rightarrow> panic + ColumnDef option" where
  "parseColumn line0 =
     (let line = TrimSuffix (TrimSpace line0) '','' in
      if line = [] \<or> HasPrefix line ''--'' then Inr None
      else if MatchString reTableConstraintKw line then Inr None
      else
        (case FindIndex reColumnLine line of
           None \<Rightarrow> Inr None
         | Some m \<Rightarrow>
             and_then (unquote (grp line m 1)) (\<lambda>name.
               let rest = grp line m 2 in
               if constraint_keyword (ToUpper name) then Inr None
               else
                 Inr (Some
                   \<lparr>Column_Name = name,
                    Column_DataType = TrimSuffix (TrimSpace (take (type_end rest) rest)) '','',
                    Column_NotNull = MatchString reNotNull rest,
                    Column_DefaultExpr =
                      (case FindIndex reDefault rest of
                         Some dm \<Rightarrow> TrimSuffix (TrimSpace (grp rest dm 1)) '',''
                       | None \<Rightarrow> []),
                    Column_Identity =
                      (case FindIndex reIdentityInline rest of
                         Some im \<Rightarrow> ToUpper (ReplaceAll_2sp (grp rest im 1))
                       | None \<Rightarrow> []),
                    Column_GeneratedExpr =
                      (case FindIndex reGenerated rest of
                         Some gm \<Rightarrow> TrimSpace (grp rest gm 1)
                       | None \<Rightarrow> [])\<rparr>))))"

text \<open>A \<open>ConstraintDef\<close> literal that names five fields; the others are zero.\<close>

definition new_constraint ::
  "string \<Rightarrow> string \<Rightarrow> string \<Rightarrow> string \<Rightarrow> string list \<Rightarrow> ConstraintDef" where
  "new_constraint name ctype tschema tname cols =
     \<lparr>Constraint_Name = name, Constraint_ConstraintType = ctype, Constraint_TableSchema = tschema,
      Constraint_TableName = tname, Constraint_Columns = cols, Constraint_RefSchema = [],
      Constraint_RefTable = [], Constraint_RefColumns = [], Constraint_OnDelete = [],
      Constraint_OnUpdate = [], Constraint_Deferrable = False, Constraint_InitiallyDeferred = False\<rparr>"

text \<open>The \<open>REFERENCES\<close> part of a foreign key: referenced schema, table and columns.\<close>

definition fk_reference :: "string \<Rightarrow> string \<Rightarrow> panic + (string \<times> string \<times> string list)" where
  "fk_reference text searchPath =
     (case FindIndex reFkReferences text of
        Some ref \<Rightarrow>
          and_then (splitQualified (grp text ref 1) searchPath) (\<lambda>(rs, rn).
          and_then (parseColumnList (grp text ref 2)) (\<lambda>rc. Inr (rs, rn, rc)))
      | None \<Rightarrow> Inr ([], [], []))"

definition parseInlineConstraint ::
  "string \<Rightarrow> TableDef \<Rightarrow> string \<Rightarrow> ParsedSchema \<Rightarrow> panic + ParsedSchema" where
  "parseInlineConstraint text tbl searchPath schema =
     and_then
       (case FindIndex reConstraintName text of
          Some m \<Rightarrow> and_then (unquote (grp text m 1)) (\<lambda>conName. Inr (conName, drop (match_len m) text))
        | None \<Rightarrow> Inr ([], text))
       (\<lambda>(conName, rest).
          let restUpper = ToUpper (TrimSpace rest) in
          if HasPrefix restUpper ''PRIMARY KEY'' then
            and_then (parseColumnList (extractParenContent rest)) (\<lambda>cols.
              Inr (schema\<lparr>Constraints := Constraints schema @
                     [new_constraint conName ''PRIMARY KEY'' (Table_SchemaName tbl) (Table_TableName tbl) cols]\<rparr>))
          else if HasPrefix restUpper ''UNIQUE'' then
            and_then (parseColumnList (extractParenContent rest)) (\<lambda>cols.
              Inr (schema\<lparr>Constraints := Constraints schema @
                     [(new_constraint conName ''UNIQUE'' (Table_SchemaName tbl) (Table_TableName tbl) cols)
                        \<lparr>Constraint_Deferrable :=
                           MatchString reDeferrable rest \<and> \<not> MatchString reNotDeferrable rest\<rparr>]\<rparr>))
          else if HasPrefix restUpper ''FOREIGN KEY'' then
            and_then (parseColumnList (extractParenContent rest)) (\<lambda>cols.
            and_then (fk_reference rest searchPath) (\<lambda>(rs, rn, rc).
              Inr (schema\<lparr>Constraints := Constraints schema @
                     [(new_constraint conName ''FOREIGN KEY'' (Table_SchemaName tbl) (Table_TableName tbl) cols)
                        \<lparr>Constraint_RefSchema := rs, Constraint_RefTable := rn, Constraint_RefColumns := rc,
                         Constraint_OnDelete :=
                           (case FindIndex reFkOnDelete rest of
                              Some del \<Rightarrow> ToUpper (grp rest del 1) | None \<Rightarrow> []),
                         Constraint_OnUpdate :=
                           (case FindIndex reFkOnUpdate rest of
                              Some upd \<Rightarrow> ToUpper (grp rest upd 1) | None \<Rightarrow> [])\<rparr>]\<rparr>)))
          else Inr schema)"

fun ptb_loop ::
  "string list \<Rightarrow> TableDef \<Rightarrow> string \<Rightarrow> ParsedSchema \<Rightarrow> panic + (TableDef \<times> ParsedSchema)" where
  "ptb_loop [] tbl searchPath schema = Inr (tbl, schema)"
| "ptb_loop (part # parts) tbl searchPath schema =
     (if TrimSpace part = [] then ptb_loop parts tbl searchPath schema
      else if MatchString reTableConstraintKw (TrimSpace part) then
        and_then (parseInlineConstraint (TrimSpace part) tbl searchPath schema) (\<lambda>schema'.
          ptb_loop parts tbl searchPath schema')
      else
        and_then (parseColumn (TrimSpace part)) (\<lambda>col.
          case col of
            Some c \<Rightarrow> ptb_loop parts (tbl\<lparr>Table_Columns := Table_Columns tbl @ [c]\<rparr>) searchPath schema
          | None \<Rightarrow> ptb_loop parts tbl searchPath schema))"

definition parseTableBody ::
  "string \<Rightarrow> TableDef \<Rightarrow> string \<Rightarrow> ParsedSchema \<Rightarrow> panic + (TableDef \<times> ParsedSchema)" where
  "parseTableBody body tbl searchPath schema = ptb_loop (splitBodyParts body) tbl searchPath schema"


subsection \<open>processStatement\<close>

text \<open>
  The recognizers are tried in the order of the source; the first whose condition holds
  takes the statement. \<open>shape\<close> names the branch taken and carries its match.
\<close>

datatype shape =
    CreateExtension caps
  | CreateTypeEnum caps
  | CreateSequence caps
  | CreateTable caps
  | AlterAddConstraint caps
  | CreateIndex caps
  | AlterSetDefault caps
  | AlterAddIdentity caps
  | AlterSeqOwned caps
  | CreateRule caps
  | NoShape

definition recognize :: "string \<Rightarrow> shape" where
  "recognize stmt =
     (let upper = ToUpper (TrimSpace stmt) in
      case (if HasPrefix (TrimSpace upper) ''CREATE'' then FindIndex reCreateExtension stmt else None) of
        Some m \<Rightarrow> CreateExtension m
      | None \<Rightarrow>
     (case FindIndex reCreateTypeEnum stmt of
        Some m \<Rightarrow> CreateTypeEnum m
      | None \<Rightarrow>
     (case (if Contains upper ''CREATE SEQUENCE'' then FindIndex reCreateSequence stmt else None) of
        Some m \<Rightarrow> CreateSequence m
      | None \<Rightarrow>
     (case FindIndex reCreateTable stmt of
        Some m \<Rightarrow> CreateTable m
      | None \<Rightarrow>
     (case FindIndex reAlterAddConstraint stmt of
        Some m \<Rightarrow> AlterAddConstraint m
      | None \<Rightarrow>
     (case FindIndex reCreateIndex stmt of
        Some m \<Rightarrow> CreateIndex m
      | None \<Rightarrow>
     (case FindIndex reAlterSetDefault stmt of
        Some m \<Rightarrow> AlterSetDefault m
      | None \<Rightarrow>
     (case FindIndex reAlterAddIdentity stmt of
        Some m \<Rightarrow> AlterAddIdentity m
      | None \<Rightarrow>
     (case FindIndex reAlterSeqOwned stmt of
        Some m \<Rightarrow> AlterSeqOwned m
      | None \<Rightarrow>
     (case FindIndex reCreateRule stmt of
        Some m \<Rightarrow> CreateRule m
      | None \<Rightarrow> NoShape))))))))))"

definition stmtCreateExtension :: "string \<Rightarrow> caps \<Rightarrow> ParsedSchema \<Rightarrow> panic + ParsedSchema" where
  "stmtCreateExtension stmt m schema =
     and_then (unquote (grp stmt m 1)) (\<lambda>u1.
     and_then (if grp stmt m 2 \<noteq> [] then
                 and_then (unquote (grp stmt m 2)) (\<lambda>u2. Inr (TrimSuffix u2 '';''))
               else Inr ''public'') (\<lambda>extSchema.
       if \<not> excludedSchemas (ToLower (TrimSuffix u1 '';'')) then
         Inr (schema\<lparr>Extensions := Extensions schema @
                [\<lparr>Extension_Name = TrimSuffix u1 '';'', Extension_SchemaName = extSchema\<rparr>]\<rparr>)
       else Inr schema))"

definition enum_labels :: "string list \<Rightarrow> string list" where
  "enum_labels parts = filter (\<lambda>lbl. lbl \<noteq> []) (map (\<lambda>lbl. Trim (TrimSpace lbl) [squote]) parts)"

definition stmtCreateTypeEnum ::
  "string \<Rightarrow> caps \<Rightarrow> string \<Rightarrow> ParsedSchema \<Rightarrow> panic + ParsedSchema" where
  "stmtCreateTypeEnum stmt m searchPath schema =
     and_then (splitQualified (grp stmt m 1) searchPath) (\<lambda>(s, n).
       if \<not> excludedSchemas s then
         Inr (schema\<lparr>EnumTypes := EnumTypes schema @
                [\<lparr>EnumType_SchemaName = s, EnumType_TypeName = n,
                  EnumType_Labels =
                    enum_labels (Split (extractParenContent (drop (match_start m) stmt)) CHR '','')\<rparr>]\<rparr>)
       else Inr schema)"

text \<open>A numeric option of a sequence: absent when the pattern fails or \<open>ParseInt\<close> errs.\<close>

definition seq_option :: "regex \<Rightarrow> string \<Rightarrow> int option" where
  "seq_option re stmt =
     (case FindIndex re stmt of Some m \<Rightarrow> ParseInt (grp stmt m 1) | None \<Rightarrow> None)"

definition stmtCreateSequence ::
  "string \<Rightarrow> caps \<Rightarrow> string \<Rightarrow> ParsedSchema \<Rightarrow> panic + ParsedSchema" where
  "stmtCreateSequence stmt m searchPath schema =
     and_then (splitQualified (grp stmt m 1) searchPath) (\<lambda>(s, n).
       if \<not> excludedSchemas s then
         Inr (schema\<lparr>Sequences := Sequences schema @
                [\<lparr>Sequence_SchemaName = s, Sequence_SequenceName = n,
                  Sequence_DataType =
                    (case FindIndex reSeqAs stmt of
                       Some as \<Rightarrow> ToLower (grp stmt as 1) | None \<Rightarrow> ''bigint''),
                  Sequence_StartValue = seq_option reSeqStart stmt,
                  Sequence_Increment = seq_option reSeqIncrement stmt,
                  Sequence_MinValue = seq_option reSeqMinValue stmt,
                  Sequence_MaxValue = seq_option reSeqMaxValue stmt,
                  Sequence_Cycle = (MatchString reSeqCycle stmt \<and> \<not> MatchString reSeqNoCycle stmt),
                  Sequence_OwnedByTable = [], Sequence_OwnedByColumn = []\<rparr>]\<rparr>)
       else Inr schema)"

definition stmtCreateTable ::
  "string \<Rightarrow> caps \<Rightarrow> string \<Rightarrow> ParsedSchema \<Rightarrow> panic + ParsedSchema" where
  "stmtCreateTable stmt m searchPath schema =
     (if \<not> MatchString reCreateStart stmt then Inr schema
      else
        and_then (splitQualified (grp stmt m 2) searchPath) (\<lambda>(s, n).
          if excludedSchemas s then Inr schema
          else
            and_then
              (let tbl = \<lparr>Table_SchemaName = s, Table_TableName = n, Table_Columns = [],
                          Table_Unlogged = (grp stmt m 1 \<noteq> []), Table_Inherits = [],
                          Table_PartitionBy = []\<rparr>
               in if extractParenContent stmt \<noteq> []
                  then parseTableBody (extractParenContent stmt) tbl s schema
                  else Inr (tbl, schema))
              (\<lambda>(tbl, schema').
                 Inr (schema'\<lparr>Tables := Tables schema' @
                        [tbl\<lparr>Table_Inherits :=
                                (case FindIndex reInherits stmt of
                                   Some inh \<Rightarrow> map TrimSpace (Split (grp stmt inh 1) CHR '','')
                                 | None \<Rightarrow> []),
                              Table_PartitionBy :=
                                (case FindIndex rePartitionBy stmt of
                                   Some part \<Rightarrow> TrimSuffix (TrimSpace (grp stmt part 1)) '';''
                                 | None \<Rightarrow> [])\<rparr>]\<rparr>))))"

definition stmtAlterAddConstraint ::
  "string \<Rightarrow> caps \<Rightarrow> string \<Rightarrow> ParsedSchema \<Rightarrow> panic + ParsedSchema" where
  "stmtAlterAddConstraint stmt m searchPath schema =
     and_then (splitQualified (grp stmt m 1) searchPath) (\<lambda>(s, n).
       if excludedSchemas s then Inr schema
       else
         and_then (unquote (grp stmt m 2)) (\<lambda>conName.
         let conType = ToUpper (ReplaceAll_2sp (grp stmt m 3)) in
         and_then (after_group stmt m 3) (\<lambda>afterType.
         and_then (if extractParenContent afterType \<noteq> [] \<and> conType \<noteq> ''EXCLUDE''
                   then parseColumnList (extractParenContent afterType) else Inr []) (\<lambda>cols.
         and_then (if conType = ''FOREIGN KEY'' then fk_reference afterType searchPath
                   else Inr ([], [], [])) (\<lambda>(rs, rn, rc).
           Inr (schema\<lparr>Constraints := Constraints schema @
                  [(new_constraint conName conType s n cols)
                     \<lparr>Constraint_RefSchema := rs, Constraint_RefTable := rn, Constraint_RefColumns := rc,
                      Constraint_OnDelete :=
                        (if conType = ''FOREIGN KEY'' then
                           (case FindIndex reFkOnDelete afterType of
                              Some del \<Rightarrow> ToUpper (ReplaceAll_2sp (grp afterType del 1))
                            | None \<Rightarrow> [])
                         else []),
                      Constraint_OnUpdate :=
                        (if conType = ''FOREIGN KEY'' then
                           (case FindIndex reFkOnUpdate afterType of
                              Some upd \<Rightarrow> ToUpper (ReplaceAll_2sp (grp afterType upd 1))
                            | None \<Rightarrow> [])
                         else []),
                      Constraint_Deferrable :=
                        (MatchString reDeferrable stmt \<and> \<not> MatchString reNotDeferrable stmt),
                      Constraint_InitiallyDeferred := MatchString reInitiallyDeferred stmt\<rparr>]\<rparr>))))))"

definition stmtCreateIndex ::
  "string \<Rightarrow> caps \<Rightarrow> string \<Rightarrow> ParsedSchema \<Rightarrow> panic + ParsedSchema" where
  "stmtCreateIndex stmt m searchPath schema =
     and_then (unquote (grp stmt m 2)) (\<lambda>idxName.
     and_then (splitQualified (grp stmt m 3) searchPath) (\<lambda>(s, n).
       if excludedSchemas s then Inr schema
       else
         and_then (after_group stmt m 3) (\<lambda>afterTable.
         and_then (if extractParenContent afterTable \<noteq> []
                   then parseColumnList (extractParenContent afterTable) else Inr []) (\<lambda>cols.
           Inr (schema\<lparr>Indexes := Indexes schema @
                  [\<lparr>Index_Name = idxName, Index_TableSchema = s, Index_TableName = n,
                    Index_Columns = cols, Index_IsUnique = (grp stmt m 1 \<noteq> []),
                    Index_Method =
                      (case FindIndex reIndexMethod stmt of
                         Some method \<Rightarrow> ToLower (grp stmt method 1) | None \<Rightarrow> ''btree'')\<rparr>]\<rparr>)))))"

text \<open>
  \<open>for i := range xs { if P(xs[i]) { xs[i] = f(xs[i]); break } }\<close>: the first element that
  satisfies \<open>P\<close> is updated in place, the others are left alone.
\<close>

fun update_first :: "('a \<Rightarrow> bool) \<Rightarrow> ('a \<Rightarrow> 'a) \<Rightarrow> 'a list \<Rightarrow> 'a list" where
  "update_first P f [] = []"
| "update_first P f (x # xs) = (if P x then f x # xs else x # update_first P f xs)"

text \<open>The column loop of the two back-fills, run on the table \<open>GetTable\<close> points to.\<close>

definition update_column ::
  "ParsedSchema \<Rightarrow> string \<Rightarrow> string \<Rightarrow> string \<Rightarrow> (ColumnDef \<Rightarrow> ColumnDef) \<Rightarrow> ParsedSchema" where
  "update_column schema s n col f =
     (case GetTable schema s n of
        Some i \<Rightarrow>
          schema\<lparr>Tables := (Tables schema)
            [i := (Tables schema ! i)
               \<lparr>Table_Columns :=
                  update_first (\<lambda>c. Column_Name c = col) f (Table_Columns (Tables schema ! i))\<rparr>]\<rparr>
      | None \<Rightarrow> schema)"

definition stmtAlterSetDefault ::
  "string \<Rightarrow> caps \<Rightarrow> string \<Rightarrow> ParsedSchema \<Rightarrow> panic + ParsedSchema" where
  "stmtAlterSetDefault stmt m searchPath schema =
     and_then (splitQualified (grp stmt m 1) searchPath) (\<lambda>(s, n).
     and_then (unquote (grp stmt m 2)) (\<lambda>col.
       if \<not> excludedSchemas s then
         Inr (update_column schema s n col (\<lambda>c. c\<lparr>Column_DefaultExpr := TrimSpace (grp stmt m 3)\<rparr>))
       else Inr schema))"

definition stmtAlterAddIdentity ::
  "string \<Rightarrow> caps \<Rightarrow> string \<Rightarrow> ParsedSchema \<Rightarrow> panic + ParsedSchema" where
  "stmtAlterAddIdentity stmt m searchPath schema =
     and_then (splitQualified (grp stmt m 1) searchPath) (\<lambda>(s, n).
     and_then (unquote (grp stmt m 2)) (\<lambda>col.
       if \<not> excludedSchemas s then
         Inr (update_column schema s n col
                (\<lambda>c. c\<lparr>Column_Identity := ToUpper (ReplaceAll_2sp (grp stmt m 3))\<rparr>))
       else Inr schema))"

definition stmtAlterSeqOwned ::
  "string \<Rightarrow> caps \<Rightarrow> string \<Rightarrow> ParsedSchema \<Rightarrow> panic + ParsedSchema" where
  "stmtAlterSeqOwned stmt m searchPath schema =
     and_then (splitQualified (grp stmt m 1) searchPath) (\<lambda>(seqS, seqN).
     and_then (splitQualified (grp stmt m 2) searchPath) (\<lambda>(tblS, tblN).
     and_then (unquote (grp stmt m 3)) (\<lambda>col.
       Inr (schema\<lparr>Sequences :=
              update_first (\<lambda>q. Sequence_SchemaName q = seqS \<and> Sequence_SequenceName q = seqN)
                           (\<lambda>q. q\<lparr>Sequence_OwnedByTable := tblS @ ''.'' @ tblN,
                                   Sequence_OwnedByColumn := col\<rparr>)
                           (Sequences schema)\<rparr>))))"

definition stmtCreateRule ::
  "string \<Rightarrow> caps \<Rightarrow> string \<Rightarrow> ParsedSchema \<Rightarrow> panic + ParsedSchema" where
  "stmtCreateRule stmt m searchPath schema =
     and_then (unquote (grp stmt m 1)) (\<lambda>ruleName.
     and_then (splitQualified (grp stmt m 3) searchPath) (\<lambda>(s, n).
       if \<not> excludedSchemas s then
         Inr (schema\<lparr>Rules := Rules schema @
                [\<lparr>Rule_SchemaName = s, Rule_TableName = n, Rule_RuleName = ruleName,
                  Rule_Event = ToUpper (grp stmt m 2), Rule_IsInstead = (grp stmt m 4 \<noteq> [])\<rparr>]\<rparr>)
       else Inr schema))"

definition processStatement :: "string \<Rightarrow> string \<Rightarrow> ParsedSchema \<Rightarrow> panic + ParsedSchema" where
  "processStatement stmt searchPath schema =
     (case recognize stmt of
        CreateExtension m \<Rightarrow> stmtCreateExtension stmt m schema
      | CreateTypeEnum m \<Rightarrow> stmtCreateTypeEnum stmt m searchPath schema
      | CreateSequence m \<Rightarrow> stmtCreateSequence stmt m searchPath schema
      | CreateTable m \<Rightarrow> stmtCreateTable stmt m searchPath schema
      | AlterAddConstraint m \<Rightarrow> stmtAlterAddConstraint stmt m searchPath schema
      | CreateIndex m \<Rightarrow> stmtCreateIndex stmt m searchPath schema
      | AlterSetDefault m \<Rightarrow> stmtAlterSetDefault stmt m searchPath schema
      | AlterAddIdentity m \<Rightarrow> stmtAlterAddIdentity stmt m searchPath schema
      | AlterSeqOwned m \<Rightarrow> stmtAlterSeqOwned stmt m searchPath schema
      | CreateRule m \<Rightarrow> stmtCreateRule stmt m searchPath schema
      | NoShape \<Rightarrow> Inr schema)"

subsection \<open>splitStatements\<close>

record statementInfo =
  si_stmt :: string
  si_searchPath :: string

text \<open>The variables of the loop over the lines; the schema is there for its version string.\<close>

record seg_state =
  seg_results :: "statementInfo list"
  seg_buf :: "string list"
  seg_inDollarQuote :: bool
  seg_dollarTag :: string
  seg_searchPath :: string
  seg_schema :: ParsedSchema

fun first_schema :: "string list \<Rightarrow> string option" where
  "first_schema [] = None"
| "first_schema (p # ps) =
     (if Trim (TrimSpace p) [squote, dquote] \<noteq> [] \<and> Trim (TrimSpace p) [squote, dquote] \<noteq> ''pg_catalog''
      then Some (Trim (TrimSpace p) [squote, dquote])
      else first_schema ps)"

definition track_search_path :: "string \<Rightarrow> string \<Rightarrow> string" where
  "track_search_path stripped searchPath =
     (case FindIndex reSetSearchPath stripped of
        Some m \<Rightarrow>
          (let spVal = (if grp stripped m 1 = [] then grp stripped m 2 else grp stripped m 1) in
           if spVal \<noteq> [] then
             (case first_schema (Split spVal CHR '','') of Some p \<Rightarrow> p | None \<Rightarrow> searchPath)
           else searchPath)
      | None \<Rightarrow> searchPath)"

text \<open>
  Whether a line seen outside a dollar quote opens one: the tag of the first \<open>$tag$\<close>
  token, when it does not occur again after its first occurrence on the line. The pattern
  has just matched the tag, so \<open>strings.Index\<close> finds it; for \<open>-1\<close> Go would slice from
  \<open>len(tag) - 1\<close>.
\<close>

definition opens_dollar_quote :: "string \<Rightarrow> string option" where
  "opens_dollar_quote stripped =
     (case FindIndex reDollarQuote stripped of
        Some m \<Rightarrow>
          (let tag = grp stripped m 1;
               restAfter = (case Index stripped tag of
                              Some idx \<Rightarrow> drop (idx + length tag) stripped
                            | None \<Rightarrow> drop (length tag - 1) stripped)
           in if \<not> Contains restAfter tag then Some tag else None)
      | None \<Rightarrow> None)"

definition seg_step :: "seg_state \<Rightarrow> string \<Rightarrow> seg_state" where
  "seg_step st line =
     (let stripped = TrimSpace line in
      if HasPrefix stripped ''--'' then
        (if PgVersion (seg_schema st) = [] then
           (case FindIndex rePgVersion stripped of
              Some m \<Rightarrow> st\<lparr>seg_schema := (seg_schema st)\<lparr>PgVersion := grp stripped m 1\<rparr>\<rparr>
            | None \<Rightarrow> st)
         else st)
      else if stripped = [] then st
      else
        (let searchPath = track_search_path stripped (seg_searchPath st);
             opened = (if \<not> seg_inDollarQuote st then opens_dollar_quote stripped else None);
             inDollarQuote =
               (if \<not> seg_inDollarQuote st then opened \<noteq> None
                else \<not> Contains stripped (seg_dollarTag st));
             dollarTag =
               (if \<not> seg_inDollarQuote st then (case opened of Some tag \<Rightarrow> tag | None \<Rightarrow> seg_dollarTag st)
                else if Contains stripped (seg_dollarTag st) then [] else seg_dollarTag st);
             buf = seg_buf st @ [line]
         in if \<not> inDollarQuote \<and> HasSuffix stripped '';'' then
              st\<lparr>seg_results := seg_results st @
                     [\<lparr>si_stmt = Join buf [newline], si_searchPath = searchPath\<rparr>],
                 seg_buf := [], seg_inDollarQuote := inDollarQuote, seg_dollarTag := dollarTag,
                 seg_searchPath := searchPath\<rparr>
            else
              st\<lparr>seg_buf := buf, seg_inDollarQuote := inDollarQuote, seg_dollarTag := dollarTag,
                 seg_searchPath := searchPath\<rparr>))"

definition seg_init :: "ParsedSchema \<Rightarrow> string \<Rightarrow> seg_state" where
  "seg_init schema searchPath =
     \<lparr>seg_results = [], seg_buf = [], seg_inDollarQuote = False, seg_dollarTag = [],
      seg_searchPath = searchPath, seg_schema = schema\<rparr>"

text \<open>The flush after the loop: a buffer that is not empty is one more statement.\<close>

definition seg_flush :: "seg_state \<Rightarrow> statementInfo list" where
  "seg_flush st =
     (if seg_buf st \<noteq> [] then
        seg_results st @ [\<lparr>si_stmt = Join (seg_buf st) [newline], si_searchPath = seg_searchPath st\<rparr>]
      else seg_results st)"

definition splitStatements ::
  "string \<Rightarrow> ParsedSchema \<Rightarrow> string \<Rightarrow> statementInfo list \<times> ParsedSchema" where
  "splitStatements text schema searchPath =
     (let st = foldl seg_step (seg_init schema searchPath) (Split text newline)
      in (seg_flush st, seg_schema st))"

subsection \<open>ParseDump\<close>

datatype failure = ReadFileError | Panic panic

fun process_all :: "statementInfo list \<Rightarrow> ParsedSchema \<Rightarrow> panic + ParsedSchema" where
  "process_all [] schema = Inr schema"
| "process_all (si # sis) schema =
     and_then (processStatement (si_stmt si) (si_searchPath si) schema) (process_all sis)"

text \<open>
  \<open>ParseDump\<close> on what \<open>os.ReadFile\<close> returned: \<open>None\<close> when it failed, else the bytes of
  the file.
\<close>

definition ParseDump :: "string option \<Rightarrow> failure + ParsedSchema" where
  "ParseDump file =
     (case file of
        None \<Rightarrow> Inl ReadFileError
      | Some data \<Rightarrow>
          (case splitStatements data empty_schema ''public'' of
             (statements, schema) \<Rightarrow>
               (case process_all statements schema of
                  Inl p \<Rightarrow> Inl (Panic p)
                | Inr schema' \<Rightarrow> Inr schema')))"


section \<open>Notions used to state the properties\<close>

definition table_key :: "TableDef \<Rightarrow> string \<times> string" where
  "table_key t = (Table_SchemaName t, Table_TableName t)"

text \<open>\<open>ys\<close> is \<open>xs\<close> with elements appended, each of which satisfies \<open>P\<close>.\<close>

definition extends_by :: "'a list \<Rightarrow> 'a list \<Rightarrow> ('a \<Rightarrow> bool) \<Rightarrow> bool" where
  "extends_by xs ys P = (take (length xs) ys = xs \<and> list_all P (drop (length xs) ys))"

definition same_but_constraints :: "ParsedSchema \<Rightarrow> ParsedSchema \<Rightarrow> bool" where
  "same_but_constraints a b =
     (Tables a = Tables b \<and> Indexes a = Indexes b \<and> Sequences a = Sequences b \<and>
      Extensions a = Extensions b \<and> EnumTypes a = EnumTypes b \<and> Rules a = Rules b \<and>
      PgVersion a = PgVersion b)"





subsection \<open>Matches as consumed text\<close>

text \<open>
  \<open>step st u\<close> is the state after reading the text \<open>u\<close> from \<open>st\<close>, and \<open>starts_with st u\<close>
  says that \<open>u\<close> is what comes next in \<open>st\<close>. A pattern is \<open>group_free\<close> when it has no
  capture group.
\<close>

definition step :: "mstate \<Rightarrow> string \<Rightarrow> mstate" where
  "step st u =
     MState (m_pos st + length u) (if u = [] then m_prev st else Some (last u))
            (drop (length u) (m_rest st)) (m_caps st)"

definition starts_with :: "mstate \<Rightarrow> string \<Rightarrow> bool" where
  "starts_with st u = (take (length u) (m_rest st) = u)"

fun group_free :: "regex \<Rightarrow> bool" where
  "group_free (Grp n r) = False"
| "group_free (Seq a b) = (group_free a \<and> group_free b)"
| "group_free (Alt a b) = (group_free a \<and> group_free b)"
| "group_free r = True"

subsection \<open>The version line\<close>

text \<open>
  A line sets the version when it is a comment line that the version pattern matches;
  \<open>version_token\<close> is then the text of the pattern's group.
\<close>

definition version_line :: "string \<Rightarrow> bool" where
  "version_line l = (HasPrefix (TrimSpace l) ''--'' \<and> MatchString rePgVersion (TrimSpace l))"

definition version_token :: "string \<Rightarrow> string" where
  "version_token l =
     (case FindIndex rePgVersion (TrimSpace l) of
        Some m \<Rightarrow> grp (TrimSpace l) m 1
      | None \<Rightarrow> [])"

subsection \<open>The inputs of the scenarios\<close>

definition orders_create :: string where
  "orders_create = ''create table public.orders (id integer primary key, customer_id text references public.customers(id) on delete cascade);''"

definition orders_alter :: string where
  "orders_alter = ''alter table only public.orders alter column id set default nextval('public.orders_id_seq'::regclass);''"

definition orders_dump :: string where
  "orders_dump = orders_create @ [newline] @ orders_alter"

definition orders_nextval :: string where
  "orders_nextval = ''nextval('public.orders_id_seq'::regclass)''"

text \<open>The table the parser builds from \<open>orders_create\<close>, with a given default for \<open>id\<close>.\<close>

definition orders_table :: "string \<Rightarrow> TableDef" where
  "orders_table dflt =
     \<lparr>Table_SchemaName = ''public'', Table_TableName = ''orders'',
      Table_Columns =
        [\<lparr>Column_Name = ''id'', Column_DataType = ''integer primary key'', Column_NotNull = False,
          Column_DefaultExpr = dflt, Column_Identity = [], Column_GeneratedExpr = []\<rparr>,
         \<lparr>Column_Name = ''customer_id'',
          Column_DataType = ''text references public.customers(id) on delete cascade'',
          Column_NotNull = False, Column_DefaultExpr = [], Column_Identity = [],
          Column_GeneratedExpr = []\<rparr>],
      Table_Unlogged = False, Table_Inherits = [], Table_PartitionBy = []\<rparr>"




definition lone_quote_index :: string where
  "lone_quote_index = ''CREATE INDEX i ON t ('' @ [dquote] @ '');''"

definition lone_quote_default :: string where
  "lone_quote_default = ''alter table '' @ [dquote] @ '' alter column c set default 1;''"

definition version_header :: string where
  "version_header = ''-- Dumped from database version 16.2 (Debian 16.2-1.pgdg120+1)''"

definition version_dump :: string where
  "version_dump = version_header @ [newline] @ ''-- Dumped from database version 99''"

subsection \<open>Commas at depth zero, valid UTF-8\<close>

text \<open>
  The parenthesis depth that \<open>splitBodyParts\<close> has reached after a text, counted on its
  bytes; a text ends with a comma at depth zero when its last byte is a comma and the depth
  before it is zero. \<open>valid_utf8\<close>: the text is a sequence of valid UTF-8 encodings, as Go's
  \<open>range\<close> decodes them.
\<close>

fun paren_depth :: "string \<Rightarrow> int" where
  "paren_depth [] = 0"
| "paren_depth (c # cs) =
     (if c = CHR ''('' then 1 else if c = CHR '')'' then - 1 else 0) + paren_depth cs"

definition ends_with_top_comma :: "string \<Rightarrow> bool" where
  "ends_with_top_comma s = (s \<noteq> [] \<and> last s = CHR '','' \<and> paren_depth (butlast s) = 0)"

function valid_utf8 :: "string \<Rightarrow> bool" where
  "valid_utf8 [] = True"
| "valid_utf8 (b # bs) =
     (if utf8_width (b # bs) = 0 then False
      else valid_utf8 (drop (utf8_width (b # bs)) (b # bs)))"
  by pat_completeness auto
termination
  by (relation "measure length") (auto simp del: utf8_width.simps)

subsection \<open>The matches of a pattern, in the order of the search\<close>

text \<open>
  \<open>results r st\<close> lists the states in which a match of \<open>r\<close> from \<open>st\<close> can end, in the order
  in which the backtracking search tries them: a greedy star longest first, a lazy star
  shortest first, the left alternative before the right one.
\<close>

fun first_some :: "('a \<Rightarrow> 'b option) \<Rightarrow> 'a list \<Rightarrow> 'b option" where
  "first_some k [] = None"
| "first_some k (x # xs) = (case k x of Some r \<Rightarrow> Some r | None \<Rightarrow> first_some k xs)"

fun star_ends :: "cclass \<Rightarrow> nat \<Rightarrow> char option \<Rightarrow> string \<Rightarrow> caps \<Rightarrow> mstate list" where
  "star_ends c p pv [] cs = [MState p pv [] cs]"
| "star_ends c p pv (x # xs) cs =
     MState p pv (x # xs) cs # (if cmatch c x then star_ends c (Suc p) (Some x) xs cs else [])"

fun results :: "regex \<Rightarrow> mstate \<Rightarrow> mstate list" where
  "results Eps (MState p pv rest cs) = [MState p pv rest cs]"
| "results (Ch c) (MState p pv [] cs) = []"
| "results (Ch c) (MState p pv (x # xs) cs) =
     (if cmatch c x then [MState (Suc p) (Some x) xs cs] else [])"
| "results (Seq a b) (MState p pv rest cs) =
     concat (map (results b) (results a (MState p pv rest cs)))"
| "results (Alt a b) (MState p pv rest cs) =
     results a (MState p pv rest cs) @ results b (MState p pv rest cs)"
| "results (Star c) (MState p pv rest cs) = rev (star_ends c p pv rest cs)"
| "results (StarLazy c) (MState p pv rest cs) = star_ends c p pv rest cs"
| "results (Grp n r) (MState p pv rest cs) =
     map (\<lambda>st'. MState (m_pos st') (m_prev st') (m_rest st') ((n, p, m_pos st') # m_caps st'))
         (results r (MState p pv rest cs))"
| "results Bol (MState p pv rest cs) = (if p = 0 then [MState p pv rest cs] else [])"
| "results Eol (MState p pv rest cs) = (if rest = [] then [MState p pv rest cs] else [])"
| "results Wb (MState p pv rest cs) =
     (if at_word_boundary pv rest then [MState p pv rest cs] else [])"

subsection \<open>Lines of a dollar-quoted region\<close>





subsection \<open>The version in a comment line\<close>

text \<open>
  \<open>version_at s\<close> reads \<open>s\<close> from its first byte: two hyphens, any white space, the words
  \<open>Dumped from database version\<close> and one blank, then the bytes up to the next white space
  or the end of the line, of which there must be one at least. \<open>dumped_version\<close> is
  \<open>version_at\<close> at the first offset of the line where it gives a token. White space is the
  pattern's \<open>\s\<close>: blank, tab, line feed, form feed, carriage return.
\<close>

definition version_phrase :: string where
  "version_phrase = ''Dumped from database version ''"

definition version_at :: "string \<Rightarrow> string option" where
  "version_at s =
     (let found = dropWhile (cmatch CSpace) (drop 2 s);
          token = takeWhile (\<lambda>c. \<not> cmatch CSpace c) (drop (length version_phrase) found)
      in if HasPrefix s ''--'' \<and> HasPrefix found version_phrase \<and> token \<noteq> [] then Some token
         else None)"

fun dumped_version :: "string \<Rightarrow> string option" where
  "dumped_version [] = None"
| "dumped_version (c # cs) =
     (case version_at (c # cs) of
        Some token \<Rightarrow> Some token
      | None \<Rightarrow> dumped_version cs)"

subsection \<open>The words CYCLE and NO CYCLE in a statement\<close>








section \<open>Evaluating the character classes\<close>


lemma is_ascii_code [code]: "is_ascii (Char b0 b1 b2 b3 b4 b5 b6 b7) = (\<not> b7)"
  by (cases b0; cases b1; cases b2; cases b3; cases b4; cases b5; cases b6; cases b7;
      simp add: is_ascii_def)

lemma is_digit_code [code]:
  "is_digit (Char b0 b1 b2 b3 b4 b5 b6 b7) =
     (\<not> b7 \<and> \<not> b6 \<and> b5 \<and> b4 \<and> (\<not> b3 \<or> (\<not> b2 \<and> \<not> b1)))"
  by (cases b0; cases b1; cases b2; cases b3; cases b4; cases b5; cases b6; cases b7;
      simp add: is_digit_def)





section \<open>The matcher finds the first of the matches\<close>

text \<open>
  The continuation-passing matcher returns what its continuation makes of the first state
  of \<open>results\<close> that the continuation accepts.
\<close>

lemma first_some_single [simp]: "first_some k [x] = k x"
  by (cases "k x") simp_all

lemma first_some_append:
  "first_some k (xs @ ys) = (case first_some k xs of Some r \<Rightarrow> Some r | None \<Rightarrow> first_some k ys)"
  by (induction xs) (auto split: option.splits)

lemma first_some_concat_map:
  "first_some k (concat (map f xs)) = first_some (\<lambda>x. first_some k (f x)) xs"
  by (induction xs) (auto simp: first_some_append split: option.splits)

lemma first_some_map: "first_some k (map f xs) = first_some (\<lambda>x. k (f x)) xs"
  by (induction xs) (auto split: option.splits)

lemma first_some_Some: "first_some Some xs = (case xs of [] \<Rightarrow> None | x # _ \<Rightarrow> Some x)"
  by (cases xs) auto

lemma star_greedy_results:
  "star_greedy c p pv rest cs k = first_some k (rev (star_ends c p pv rest cs))"
  by (induction rest arbitrary: p pv) (auto simp: first_some_append split: option.splits)

lemma star_lazy_results:
  "star_lazy c p pv rest cs k = first_some k (star_ends c p pv rest cs)"
  by (induction rest arbitrary: p pv) (auto split: option.splits)

theorem rmatch_results: "rmatch r st k = first_some k (results r st)"
proof (induction r arbitrary: st k)
  case Eps
  show ?case by (cases st) (auto split: option.splits)
next
  case (Ch c)
  show ?case by (cases st; cases "m_rest st") (auto split: option.splits)
next
  case (Seq a b)
  show ?case by (cases st) (simp add: Seq first_some_concat_map)
next
  case (Alt a b)
  show ?case by (cases st) (auto simp: Alt first_some_append split: option.splits)
next
  case (Star c)
  show ?case by (cases st) (simp add: star_greedy_results)
next
  case (StarLazy c)
  show ?case by (cases st) (simp add: star_lazy_results)
next
  case (Grp n r)
  show ?case by (cases st) (simp add: Grp first_some_map)
next
  case Bol
  show ?case by (cases st) (auto split: option.splits)
next
  case Eol
  show ?case by (cases st) (auto split: option.splits)
next
  case Wb
  show ?case by (cases st) (auto split: option.splits)
qed

subsection \<open>Which states a pattern can end in\<close>

lemma starts_with_Nil [simp]: "starts_with st []"
  by (simp add: starts_with_def)

lemma step_Nil [simp]: "step st [] = st"
  by (cases st) (simp add: step_def)

lemma starts_with_iff: "starts_with st u \<longleftrightarrow> (\<exists>r. m_rest st = u @ r)"
proof
  assume "starts_with st u"
  then have "m_rest st = u @ drop (length u) (m_rest st)"
    unfolding starts_with_def by (metis append_take_drop_id)
  then show "\<exists>r. m_rest st = u @ r" ..
next
  assume "\<exists>r. m_rest st = u @ r"
  then show "starts_with st u" by (auto simp: starts_with_def)
qed

lemma step_sel [simp]:
  "m_pos (step st u) = m_pos st + length u"
  "m_rest (step st u) = drop (length u) (m_rest st)"
  "m_caps (step st u) = m_caps st"
  by (simp_all add: step_def)

lemma step_step:
  "starts_with st u \<Longrightarrow> step (step st u) v = step st (u @ v)"
  by (cases st) (auto simp: step_def starts_with_def add.commute add.left_commute)

lemma starts_with_step:
  "starts_with st u \<Longrightarrow> starts_with (step st u) v = starts_with st (u @ v)"
proof -
  assume "starts_with st u"
  then obtain r where r: "m_rest st = u @ r" using starts_with_iff by blast
  show ?thesis by (simp add: starts_with_def r)
qed

lemma star_ends_mem:
  "y \<in> set (star_ends c p pv rest cs) \<longleftrightarrow>
     (\<exists>u. take (length u) rest = u \<and> list_all (cmatch c) u \<and>
          y = MState (p + length u) (if u = [] then pv else Some (last u)) (drop (length u) rest) cs)"
proof (induction rest arbitrary: p pv)
  case Nil
  show ?case by auto
next
  case (Cons x xs)
  show ?case
  proof
    assume a: "y \<in> set (star_ends c p pv (x # xs) cs)"
    show "\<exists>u. take (length u) (x # xs) = u \<and> list_all (cmatch c) u \<and>
          y = MState (p + length u) (if u = [] then pv else Some (last u)) (drop (length u) (x # xs)) cs"
    proof (cases "y = MState p pv (x # xs) cs")
      case True
      then show ?thesis by (intro exI[of _ "[]"]) simp
    next
      case False
      with a have cx: "cmatch c x" and m: "y \<in> set (star_ends c (Suc p) (Some x) xs cs)"
        by (auto split: if_splits)
      from m Cons.IH obtain u where u: "take (length u) xs = u" "list_all (cmatch c) u"
        "y = MState (Suc p + length u) (if u = [] then Some x else Some (last u)) (drop (length u) xs) cs"
        by blast
      from u cx show ?thesis by (intro exI[of _ "x # u"]) auto
    qed
  next
    assume "\<exists>u. take (length u) (x # xs) = u \<and> list_all (cmatch c) u \<and>
          y = MState (p + length u) (if u = [] then pv else Some (last u)) (drop (length u) (x # xs)) cs"
    then obtain u where u: "take (length u) (x # xs) = u" "list_all (cmatch c) u"
        "y = MState (p + length u) (if u = [] then pv else Some (last u)) (drop (length u) (x # xs)) cs"
      by blast
    show "y \<in> set (star_ends c p pv (x # xs) cs)"
    proof (cases u)
      case Nil
      with u show ?thesis by simp
    next
      case (Cons a v)
      with u have ax: "a = x" and tv: "take (length v) xs = v" and cx: "cmatch c x"
        and lv: "list_all (cmatch c) v" by auto
      have "y = MState (Suc p + length v) (if v = [] then Some x else Some (last v)) (drop (length v) xs) cs"
        using u(3) Cons ax by auto
      with tv lv Cons.IH have "y \<in> set (star_ends c (Suc p) (Some x) xs cs)" by blast
      with cx show ?thesis by simp
    qed
  qed
qed

lemma results_Eps_mem: "y \<in> set (results Eps st) \<longleftrightarrow> y = st"
  by (cases st) auto

lemma results_Ch_mem:
  "y \<in> set (results (Ch c) st) \<longleftrightarrow>
     (\<exists>x. starts_with st [x] \<and> cmatch c x \<and> y = step st [x])"
  by (cases st; cases "m_rest st") (auto simp: step_def starts_with_def)

lemma results_Seq_mem:
  "y \<in> set (results (Seq a b) st) \<longleftrightarrow> (\<exists>z \<in> set (results a st). y \<in> set (results b z))"
  by (cases st) auto

lemma results_Alt_mem:
  "y \<in> set (results (Alt a b) st) \<longleftrightarrow> y \<in> set (results a st) \<or> y \<in> set (results b st)"
  by (cases st) auto

lemma results_Star_mem:
  "y \<in> set (results (Star c) st) \<longleftrightarrow>
     (\<exists>u. starts_with st u \<and> list_all (cmatch c) u \<and> y = step st u)"
  by (cases st) (simp add: star_ends_mem step_def starts_with_def)

lemma results_StarLazy_mem:
  "y \<in> set (results (StarLazy c) st) \<longleftrightarrow>
     (\<exists>u. starts_with st u \<and> list_all (cmatch c) u \<and> y = step st u)"
  by (cases st) (simp add: star_ends_mem step_def starts_with_def)

lemma results_Grp_mem:
  "y \<in> set (results (Grp n r) st) \<longleftrightarrow>
     (\<exists>z \<in> set (results r st).
         y = MState (m_pos z) (m_prev z) (m_rest z) ((n, m_pos st, m_pos z) # m_caps z))"
  by (cases st) auto

lemma results_Bol_mem: "y \<in> set (results Bol st) \<longleftrightarrow> m_pos st = 0 \<and> y = st"
  by (cases st) auto

lemma results_Eol_mem: "y \<in> set (results Eol st) \<longleftrightarrow> m_rest st = [] \<and> y = st"
  by (cases st) auto

lemma results_Wb_mem:
  "y \<in> set (results Wb st) \<longleftrightarrow> at_word_boundary (m_prev st) (m_rest st) \<and> y = st"
  by (cases st) auto

lemma results_Ch_Seq_mem:
  "y \<in> set (results (Seq (Ch c) r) st) \<longleftrightarrow>
     (\<exists>x. starts_with st [x] \<and> cmatch c x \<and> y \<in> set (results r (step st [x])))"
proof
  assume "y \<in> set (results (Seq (Ch c) r) st)"
  then obtain z where z: "z \<in> set (results (Ch c) st)" "y \<in> set (results r z)"
    using results_Seq_mem by blast
  from z(1) obtain x where "starts_with st [x]" "cmatch c x" "z = step st [x]"
    using results_Ch_mem by blast
  with z(2) show "\<exists>x. starts_with st [x] \<and> cmatch c x \<and> y \<in> set (results r (step st [x]))"
    by blast
next
  assume "\<exists>x. starts_with st [x] \<and> cmatch c x \<and> y \<in> set (results r (step st [x]))"
  then obtain x where x: "starts_with st [x]" "cmatch c x" "y \<in> set (results r (step st [x]))"
    by blast
  from x(1,2) have "step st [x] \<in> set (results (Ch c) st)" using results_Ch_mem by blast
  with x(3) show "y \<in> set (results (Seq (Ch c) r) st)" using results_Seq_mem by blast
qed

lemma results_plus_mem:
  "y \<in> set (results (plus c) st) \<longleftrightarrow>
     (\<exists>u. u \<noteq> [] \<and> starts_with st u \<and> list_all (cmatch c) u \<and> y = step st u)"
proof
  assume "y \<in> set (results (plus c) st)"
  then obtain x v where x: "starts_with st [x]" "cmatch c x"
    and v: "starts_with (step st [x]) v" "list_all (cmatch c) v" "y = step (step st [x]) v"
    by (auto simp: plus_def results_Ch_Seq_mem results_Star_mem)
  from x v have "x # v \<noteq> [] \<and> starts_with st (x # v) \<and> list_all (cmatch c) (x # v) \<and> y = step st (x # v)"
    using starts_with_step[OF x(1), of v] step_step[OF x(1), of v] by simp
  then show "\<exists>u. u \<noteq> [] \<and> starts_with st u \<and> list_all (cmatch c) u \<and> y = step st u" by blast
next
  assume "\<exists>u. u \<noteq> [] \<and> starts_with st u \<and> list_all (cmatch c) u \<and> y = step st u"
  then obtain x v where u: "starts_with st (x # v)" "list_all (cmatch c) (x # v)" "y = step st (x # v)"
    by (metis list.exhaust)
  from u(1) have sx: "starts_with st [x]"
    unfolding starts_with_iff by auto
  from u sx have "starts_with (step st [x]) v \<and> list_all (cmatch c) v \<and> y = step (step st [x]) v"
    using starts_with_step[OF sx, of v] step_step[OF sx, of v] by simp
  with sx u(2) show "y \<in> set (results (plus c) st)"
    by (auto simp: plus_def results_Ch_Seq_mem results_Star_mem)
qed

lemma results_lit_mem:
  "y \<in> set (results (lit s) st) \<longleftrightarrow> starts_with st s \<and> y = step st s"
proof (induction s arbitrary: st)
  case Nil
  show ?case by (simp add: lit_def results_Eps_mem) 
next
  case (Cons a s)
  have l: "lit (a # s) = Seq (Ch (CLit a)) (lit s)" by (simp add: lit_def)
  show ?case
  proof
    assume "y \<in> set (results (lit (a # s)) st)"
    then obtain x where x: "starts_with st [x]" "x = a" and y: "y \<in> set (results (lit s) (step st [x]))"
      by (auto simp: l results_Ch_Seq_mem)
    from y Cons have "starts_with (step st [x]) s" "y = step (step st [x]) s" by auto
    with x show "starts_with st (a # s) \<and> y = step st (a # s)"
      using starts_with_step[OF x(1), of s] step_step[OF x(1), of s] by simp
  next
    assume a: "starts_with st (a # s) \<and> y = step st (a # s)"
    then have sx: "starts_with st [a]" unfolding starts_with_iff by auto
    from a have "starts_with (step st [a]) s \<and> y = step (step st [a]) s"
      using starts_with_step[OF sx, of s] step_step[OF sx, of s] by simp
    with Cons have "y \<in> set (results (lit s) (step st [a]))" by blast
    with sx show "y \<in> set (results (lit (a # s)) st)"
      by (auto simp: l results_Ch_Seq_mem)
  qed
qed


lemma seqs_Nil: "seqs [] = Eps" and seqs_Cons: "seqs (r # rs) = Seq r (seqs rs)"
  by (simp_all add: seqs_def)

lemma results_group_free:
  "group_free r \<Longrightarrow> y \<in> set (results r st) \<Longrightarrow> m_caps y = m_caps st"
proof (induction r arbitrary: st y)
  case (Seq a b)
  then show ?case unfolding results_Seq_mem by (metis group_free.simps(2))
next
  case (Alt a b)
  then show ?case unfolding results_Alt_mem by (metis group_free.simps(3))
next
  case (Grp n r)
  then show ?case by simp
qed (auto simp: results_Eps_mem results_Ch_mem results_Star_mem results_StarLazy_mem
                results_Bol_mem results_Eol_mem results_Wb_mem)

text \<open>Every match consumes a prefix of the text that is left.\<close>

lemma results_advance:
  "y \<in> set (results r st) \<Longrightarrow> \<exists>u. m_rest st = u @ m_rest y \<and> m_pos y = m_pos st + length u"
proof (induction r arbitrary: st y)
  case (Seq a b)
  from Seq.prems obtain z where z: "z \<in> set (results a st)" "y \<in> set (results b z)"
    unfolding results_Seq_mem by blast
  from Seq.IH(1)[OF z(1)] obtain u where u: "m_rest st = u @ m_rest z" "m_pos z = m_pos st + length u" by blast
  from Seq.IH(2)[OF z(2)] obtain v where v: "m_rest z = v @ m_rest y" "m_pos y = m_pos z + length v" by blast
  from u v have "m_rest st = (u @ v) @ m_rest y \<and> m_pos y = m_pos st + length (u @ v)" by simp
  then show ?case by blast
next
  case (Alt a b)
  then show ?case unfolding results_Alt_mem by blast
next
  case (Grp n r)
  from Grp.prems obtain z where z: "z \<in> set (results r st)"
    "y = MState (m_pos z) (m_prev z) (m_rest z) ((n, m_pos st, m_pos z) # m_caps z)"
    unfolding results_Grp_mem by blast
  from Grp.IH[OF z(1)] z(2) show ?case by simp
next
  case Eps
  then show ?case by (auto simp: results_Eps_mem)
next
  case (Ch c)
  then show ?case by (auto simp: results_Ch_mem starts_with_iff)
next
  case (Star c)
  then show ?case by (auto simp: results_Star_mem starts_with_iff)
next
  case (StarLazy c)
  then show ?case by (auto simp: results_StarLazy_mem starts_with_iff)
next
  case Bol
  then show ?case by (auto simp: results_Bol_mem)
next
  case Eol
  then show ?case by (auto simp: results_Eol_mem)
next
  case Wb
  then show ?case by (auto simp: results_Wb_mem)
qed

text \<open>The unanchored search, in terms of \<open>results\<close>.\<close>

lemma search_from_Some:
  "search_from r p pv rest = Some m \<Longrightarrow>
     \<exists>q pv' y. q \<le> length rest \<and> y \<in> set (results r (MState (p + q) pv' (drop q rest) [])) \<and>
                m = (0, p + q, m_pos y) # m_caps y"
proof (induction rest arbitrary: p pv)
  case Nil
  then obtain y where "rmatch r (MState p pv [] []) Some = Some y" "m = (0, p, m_pos y) # m_caps y"
    by (auto split: option.splits)
  then have "y \<in> set (results r (MState p pv [] []))"
    by (auto simp: rmatch_results first_some_Some split: list.splits)
  with \<open>m = (0, p, m_pos y) # m_caps y\<close> show ?case
    by (intro exI[of _ 0] exI[of _ pv] exI[of _ y]) simp
next
  case (Cons x xs)
  show ?case
  proof (cases "rmatch r (MState p pv (x # xs) []) Some")
    case (Some y)
    with Cons.prems have m: "m = (0, p, m_pos y) # m_caps y" by simp
    from Some have "y \<in> set (results r (MState p pv (x # xs) []))"
      by (auto simp: rmatch_results first_some_Some split: list.splits)
    with m show ?thesis
      by (intro exI[of _ 0] exI[of _ pv] exI[of _ y]) simp
  next
    case None
    with Cons.prems have "search_from r (Suc p) (Some x) xs = Some m" by simp
    from Cons.IH[OF this] obtain q pv' y where q: "q \<le> length xs"
      "y \<in> set (results r (MState (Suc p + q) pv' (drop q xs) []))" "m = (0, Suc p + q, m_pos y) # m_caps y"
      by blast
    then show ?thesis
      by (intro exI[of _ "Suc q"] exI[of _ pv'] exI[of _ y]) simp
  qed
qed

lemma FindIndex_Some:
  assumes "FindIndex r s = Some m"
  shows "\<exists>q pv y. q \<le> length s \<and> y \<in> set (results r (MState q pv (drop q s) [])) \<and>
                m = (0, q, m_pos y) # m_caps y"
  using search_from_Some[OF assms[unfolded FindIndex_def]] by simp

section \<open>What one statement does to the model\<close>





lemma extends_by_refl [simp]: "extends_by xs xs P"
  by (simp add: extends_by_def)

lemma extends_by_append [simp]: "extends_by xs (xs @ zs) P = list_all P zs"
  by (simp add: extends_by_def)

lemma extends_by_trans:
  "extends_by xs ys P \<Longrightarrow> extends_by ys zs P \<Longrightarrow> extends_by xs zs P"
proof -
  assume a: "extends_by xs ys P" and b: "extends_by ys zs P"
  from a obtain us where ys: "ys = xs @ us" and us: "list_all P us"
    unfolding extends_by_def by (metis append_take_drop_id)
  from b obtain vs where zs: "zs = ys @ vs" and vs: "list_all P vs"
    unfolding extends_by_def by (metis append_take_drop_id)
  show ?thesis using us vs unfolding ys zs by simp
qed

lemma same_but_constraints_refl [simp]: "same_but_constraints a a"
  by (simp add: same_but_constraints_def)

lemma parseInlineConstraint_frame:
  assumes "parseInlineConstraint text tbl sp sch = Inr sch'"
  shows "same_but_constraints sch sch' \<and>
         extends_by (Constraints sch) (Constraints sch')
           (\<lambda>c. Constraint_TableSchema c = Table_SchemaName tbl \<and>
                Constraint_TableName c = Table_TableName tbl)"
  using assms unfolding parseInlineConstraint_def and_then_def
  by (auto simp: Let_def new_constraint_def same_but_constraints_def
           split: sum.splits prod.splits if_splits option.splits)

lemma ptb_loop_frame:
  "ptb_loop parts tbl sp sch = Inr (tbl', sch') \<Longrightarrow>
     same_but_constraints sch sch' \<and>
     extends_by (Constraints sch) (Constraints sch')
        (\<lambda>c. Constraint_TableSchema c = Table_SchemaName tbl \<and>
             Constraint_TableName c = Table_TableName tbl) \<and>
     table_key tbl' = table_key tbl"
proof (induction parts arbitrary: tbl sch)
  case Nil
  then show ?case by simp
next
  case (Cons part parts)
  show ?case
  proof (cases "TrimSpace part = []")
    case True
    with Cons show ?thesis by simp
  next
    case ne: False
    show ?thesis
    proof (cases "MatchString reTableConstraintKw (TrimSpace part)")
      case True
      with ne Cons.prems obtain sch1 where
        p: "parseInlineConstraint (TrimSpace part) tbl sp sch = Inr sch1" and
        r: "ptb_loop parts tbl sp sch1 = Inr (tbl', sch')"
        by (auto simp: and_then_def split: sum.splits)
      from parseInlineConstraint_frame[OF p] Cons.IH[OF r] show ?thesis
        by (auto simp: same_but_constraints_def intro: extends_by_trans)
    next
      case False
      with ne Cons.prems obtain col where
        p: "parseColumn (TrimSpace part) = Inr col" and
        r: "(case col of Some c \<Rightarrow> ptb_loop parts (tbl\<lparr>Table_Columns := Table_Columns tbl @ [c]\<rparr>) sp sch
             | None \<Rightarrow> ptb_loop parts tbl sp sch) = Inr (tbl', sch')"
        by (auto simp: and_then_def split: sum.splits)
      show ?thesis
      proof (cases col)
        case None
        with r Cons.IH show ?thesis by simp
      next
        case (Some c)
        with r have "ptb_loop parts (tbl\<lparr>Table_Columns := Table_Columns tbl @ [c]\<rparr>) sp sch = Inr (tbl', sch')"
          by simp
        from Cons.IH[OF this] show ?thesis by (simp add: table_key_def)
      qed
    qed
  qed
qed





lemma update_first_map:
  "(\<And>x. g (f x) = g x) \<Longrightarrow> map g (update_first P f xs) = map g xs"
  by (induction xs) auto

lemma update_first_length [simp]: "length (update_first P f xs) = length xs"
  by (induction xs) auto



lemma find_table_Some:
  "find_table ts schema name i = Some j \<Longrightarrow>
     i \<le> j \<and> j - i < length ts \<and> table_key (ts ! (j - i)) = (schema, name) \<and>
     (\<forall>k < j - i. table_key (ts ! k) \<noteq> (schema, name))"
proof (induction ts arbitrary: i)
  case Nil
  then show ?case by simp
next
  case (Cons t ts)
  show ?case
  proof (cases "Table_SchemaName t = schema \<and> Table_TableName t = name")
    case True
    with Cons.prems show ?thesis by (simp add: table_key_def)
  next
    case False
    with Cons.prems have f: "find_table ts schema name (Suc i) = Some j" by simp
    from Cons.IH[OF f] have ih: "Suc i \<le> j" "j - Suc i < length ts"
      "table_key (ts ! (j - Suc i)) = (schema, name)"
      "\<forall>k < j - Suc i. table_key (ts ! k) \<noteq> (schema, name)"
      by auto
    from ih(1) have e: "j - i = Suc (j - Suc i)" by simp
    show ?thesis
      using ih False unfolding e
      by (auto simp: less_Suc_eq_0_disj table_key_def)
  qed
qed

lemma GetTable_Some_bound: "GetTable sch s n = Some i \<Longrightarrow> i < length (Tables sch)"
  unfolding GetTable_def by (drule find_table_Some) simp


lemma update_column_others:
  "Constraints (update_column sch s n col f) = Constraints sch \<and>
   Indexes (update_column sch s n col f) = Indexes sch \<and>
   Sequences (update_column sch s n col f) = Sequences sch \<and>
   Extensions (update_column sch s n col f) = Extensions sch \<and>
   EnumTypes (update_column sch s n col f) = EnumTypes sch \<and>
   Rules (update_column sch s n col f) = Rules sch \<and>
   PgVersion (update_column sch s n col f) = PgVersion sch"
  by (simp add: update_column_def split: option.splits)



lemma stmtCreateExtension_effect:
  assumes "stmtCreateExtension stmt m sch = Inr sch'"
  shows "Tables sch' = Tables sch \<and> Constraints sch' = Constraints sch \<and> Indexes sch' = Indexes sch \<and>
         Sequences sch' = Sequences sch \<and> EnumTypes sch' = EnumTypes sch \<and> Rules sch' = Rules sch \<and>
         PgVersion sch' = PgVersion sch \<and>
         extends_by (Extensions sch) (Extensions sch') (\<lambda>e. \<not> excludedSchemas (ToLower (Extension_Name e)))"
  using assms unfolding stmtCreateExtension_def and_then_def
  by (auto split: sum.splits if_splits)

lemma stmtCreateTypeEnum_effect:
  assumes "stmtCreateTypeEnum stmt m sp sch = Inr sch'"
  shows "Tables sch' = Tables sch \<and> Constraints sch' = Constraints sch \<and> Indexes sch' = Indexes sch \<and>
         Sequences sch' = Sequences sch \<and> Extensions sch' = Extensions sch \<and> Rules sch' = Rules sch \<and>
         PgVersion sch' = PgVersion sch \<and>
         extends_by (EnumTypes sch) (EnumTypes sch') (\<lambda>e. \<not> excludedSchemas (EnumType_SchemaName e))"
  using assms unfolding stmtCreateTypeEnum_def and_then_def
  by (auto split: sum.splits if_splits prod.splits)

lemma stmtCreateSequence_effect:
  assumes "stmtCreateSequence stmt m sp sch = Inr sch'"
  shows "Tables sch' = Tables sch \<and> Constraints sch' = Constraints sch \<and> Indexes sch' = Indexes sch \<and>
         EnumTypes sch' = EnumTypes sch \<and> Extensions sch' = Extensions sch \<and> Rules sch' = Rules sch \<and>
         PgVersion sch' = PgVersion sch \<and>
         extends_by (Sequences sch) (Sequences sch')
           (\<lambda>q. \<not> excludedSchemas (Sequence_SchemaName q) \<and>
                Sequence_Cycle q = (MatchString reSeqCycle stmt \<and> \<not> MatchString reSeqNoCycle stmt))"
  using assms unfolding stmtCreateSequence_def and_then_def
  by (auto split: sum.splits if_splits prod.splits)

lemma stmtCreateTable_effect:
  assumes "stmtCreateTable stmt m sp sch = Inr sch'"
  shows "Indexes sch' = Indexes sch \<and> Sequences sch' = Sequences sch \<and>
         EnumTypes sch' = EnumTypes sch \<and> Extensions sch' = Extensions sch \<and> Rules sch' = Rules sch \<and>
         PgVersion sch' = PgVersion sch \<and>
         extends_by (Constraints sch) (Constraints sch') (\<lambda>c. \<not> excludedSchemas (Constraint_TableSchema c)) \<and>
         extends_by (Tables sch) (Tables sch') (\<lambda>t. \<not> excludedSchemas (Table_SchemaName t))"
proof (cases "MatchString reCreateStart stmt")
  case False
  with assms show ?thesis by (simp add: stmtCreateTable_def)
next
  case True
  with assms obtain s n where sq: "splitQualified (grp stmt m 2) sp = Inr (s, n)"
    by (auto simp: stmtCreateTable_def and_then_def split: sum.splits)
  show ?thesis
  proof (cases "excludedSchemas s")
    case ex: True
    with assms True sq show ?thesis by (simp add: stmtCreateTable_def and_then_def)
  next
    case ex: False
    define tbl0 where "tbl0 = \<lparr>Table_SchemaName = s, Table_TableName = n, Table_Columns = [],
                          Table_Unlogged = (grp stmt m 1 \<noteq> []), Table_Inherits = [],
                          Table_PartitionBy = []\<rparr>"
    from assms True sq ex obtain tbl sch1 t where
      body: "(if extractParenContent stmt \<noteq> []
                  then parseTableBody (extractParenContent stmt) tbl0 s sch
                  else Inr (tbl0, sch)) = Inr (tbl, sch1)" and
      res: "sch' = sch1\<lparr>Tables := Tables sch1 @ [t]\<rparr>" and
      t: "Table_SchemaName t = Table_SchemaName tbl"
      unfolding stmtCreateTable_def and_then_def tbl0_def
      by (auto simp: Let_def split: sum.splits prod.splits if_splits)
    have "same_but_constraints sch sch1 \<and>
          extends_by (Constraints sch) (Constraints sch1)
            (\<lambda>c. Constraint_TableSchema c = s \<and> Constraint_TableName c = n) \<and>
          table_key tbl = (s, n)"
    proof (cases "extractParenContent stmt \<noteq> []")
      case True
      with body have "ptb_loop (splitBodyParts (extractParenContent stmt)) tbl0 s sch = Inr (tbl, sch1)"
        by (simp add: parseTableBody_def)
      from ptb_loop_frame[OF this] show ?thesis
        by (simp add: table_key_def tbl0_def)
    next
      case False
      with body show ?thesis by (auto simp: table_key_def tbl0_def)
    qed
    then have a: "same_but_constraints sch sch1" and
      b: "extends_by (Constraints sch) (Constraints sch1)
            (\<lambda>c. Constraint_TableSchema c = s \<and> Constraint_TableName c = n)" and
      c: "Table_SchemaName tbl = s"
      by (simp_all add: table_key_def)
    from b ex have "extends_by (Constraints sch) (Constraints sch1) (\<lambda>c. \<not> excludedSchemas (Constraint_TableSchema c))"
      unfolding extends_by_def by (auto simp: list_all_iff)
    with a c t ex show ?thesis unfolding res
      by (simp add: same_but_constraints_def)
  qed
qed

lemma stmtAlterAddConstraint_effect:
  assumes "stmtAlterAddConstraint stmt m sp sch = Inr sch'"
  shows "Tables sch' = Tables sch \<and> Indexes sch' = Indexes sch \<and> Sequences sch' = Sequences sch \<and>
         EnumTypes sch' = EnumTypes sch \<and> Extensions sch' = Extensions sch \<and> Rules sch' = Rules sch \<and>
         PgVersion sch' = PgVersion sch \<and>
         extends_by (Constraints sch) (Constraints sch') (\<lambda>c. \<not> excludedSchemas (Constraint_TableSchema c))"
  using assms unfolding stmtAlterAddConstraint_def and_then_def
  by (auto simp: Let_def new_constraint_def split: sum.splits if_splits prod.splits)

lemma stmtCreateIndex_effect:
  assumes "stmtCreateIndex stmt m sp sch = Inr sch'"
  shows "Tables sch' = Tables sch \<and> Constraints sch' = Constraints sch \<and> Sequences sch' = Sequences sch \<and>
         EnumTypes sch' = EnumTypes sch \<and> Extensions sch' = Extensions sch \<and> Rules sch' = Rules sch \<and>
         PgVersion sch' = PgVersion sch \<and>
         extends_by (Indexes sch) (Indexes sch') (\<lambda>i. \<not> excludedSchemas (Index_TableSchema i))"
  using assms unfolding stmtCreateIndex_def and_then_def
  by (auto simp: Let_def split: sum.splits if_splits prod.splits)

lemma stmtCreateRule_effect:
  assumes "stmtCreateRule stmt m sp sch = Inr sch'"
  shows "Tables sch' = Tables sch \<and> Constraints sch' = Constraints sch \<and> Sequences sch' = Sequences sch \<and>
         EnumTypes sch' = EnumTypes sch \<and> Extensions sch' = Extensions sch \<and> Indexes sch' = Indexes sch \<and>
         PgVersion sch' = PgVersion sch \<and>
         extends_by (Rules sch) (Rules sch') (\<lambda>r. \<not> excludedSchemas (Rule_SchemaName r))"
  using assms unfolding stmtCreateRule_def and_then_def
  by (auto simp: Let_def split: sum.splits if_splits prod.splits)


lemma stmtAlterSetDefault_effect:
  assumes "stmtAlterSetDefault stmt m sp sch = Inr sch'"
  shows "sch' = sch \<or> (\<exists>s n col f. sch' = update_column sch s n col f)"
  using assms unfolding stmtAlterSetDefault_def and_then_def
  by (auto split: sum.splits if_splits prod.splits)

lemma stmtAlterAddIdentity_effect:
  assumes "stmtAlterAddIdentity stmt m sp sch = Inr sch'"
  shows "sch' = sch \<or> (\<exists>s n col f. sch' = update_column sch s n col f)"
  using assms unfolding stmtAlterAddIdentity_def and_then_def
  by (auto split: sum.splits if_splits prod.splits)

lemma stmtAlterSeqOwned_effect:
  assumes "stmtAlterSeqOwned stmt m sp sch = Inr sch'"
  shows "Tables sch' = Tables sch \<and> Constraints sch' = Constraints sch \<and> Indexes sch' = Indexes sch \<and>
         EnumTypes sch' = EnumTypes sch \<and> Extensions sch' = Extensions sch \<and> Rules sch' = Rules sch \<and>
         PgVersion sch' = PgVersion sch \<and>
         map Sequence_SchemaName (Sequences sch') = map Sequence_SchemaName (Sequences sch) \<and>
         map Sequence_Cycle (Sequences sch') = map Sequence_Cycle (Sequences sch)"
  using assms unfolding stmtAlterSeqOwned_def and_then_def
  by (auto simp: update_first_map split: sum.splits if_splits prod.splits)












lemma ParseDump_Inr:
  assumes "ParseDump (Some data) = Inr sch"
  shows "process_all (fst (splitStatements data empty_schema ''public''))
           (snd (splitStatements data empty_schema ''public'')) = Inr sch"
  using assms by (auto simp: ParseDump_def split: prod.splits sum.splits)

section \<open>The scenario of the orders table\<close>

lemma orders_create_result:
  "processStatement orders_create ''public'' empty_schema = Inr (empty_schema\<lparr>Tables := [orders_table []]\<rparr>)"
  by code_simp

lemma orders_alter_result:
  "processStatement orders_alter ''public'' (empty_schema\<lparr>Tables := [orders_table []]\<rparr>) =
     Inr (empty_schema\<lparr>Tables := [orders_table orders_nextval]\<rparr>)"
  by code_simp

lemma orders_dump_result:
  "ParseDump (Some orders_dump) =
     Inr (empty_schema\<lparr>Tables := [orders_table orders_nextval]\<rparr>)"
  by code_simp

text \<open>
  C1, as the claim states it: the two statements yield one PRIMARY KEY constraint on \<open>id\<close>
  and one FOREIGN KEY constraint for the table \<open>public.orders\<close>. They do not: the model the
  parser returns holds no constraint of either kind for that table.
\<close>

theorem orders_scenario_has_no_constraints:
  "ParseDump (Some orders_dump) =
     Inr (empty_schema\<lparr>Tables := [orders_table orders_nextval]\<rparr>) \<and>
   GetConstraintsForTable (empty_schema\<lparr>Tables := [orders_table orders_nextval]\<rparr>)
     ''public'' ''orders'' ''PRIMARY KEY'' = [] \<and>
   GetConstraintsForTable (empty_schema\<lparr>Tables := [orders_table orders_nextval]\<rparr>)
     ''public'' ''orders'' ''FOREIGN KEY'' = []"
  using orders_dump_result by (simp add: GetConstraintsForTable_def empty_schema_def)

text \<open>
  C1, amended: the first statement yields exactly one table, \<open>public.orders\<close>, with exactly
  the two columns \<open>id\<close> and \<open>customer_id\<close>, and no constraint, index, sequence or other
  entity. A column is never searched for \<open>primary key\<close> or \<open>references\<close>: both clauses stay
  in the column's data-type text. The second statement then sets the default expression of
  \<open>id\<close> to the \<open>nextval\<close> text and changes nothing else; the whole dump gives the same model.
\<close>

theorem orders_scenario:
  "processStatement orders_create ''public'' empty_schema =
     Inr (empty_schema\<lparr>Tables := [orders_table []]\<rparr>) \<and>
   processStatement orders_alter ''public'' (empty_schema\<lparr>Tables := [orders_table []]\<rparr>) =
     Inr (empty_schema\<lparr>Tables := [orders_table orders_nextval]\<rparr>) \<and>
   ParseDump (Some orders_dump) =
     Inr (empty_schema\<lparr>Tables := [orders_table orders_nextval]\<rparr>) \<and>
   map Column_Name (Table_Columns (orders_table orders_nextval)) = [''id'', ''customer_id''] \<and>
   map Column_DefaultExpr (Table_Columns (orders_table orders_nextval)) = [orders_nextval, []] \<and>
   Constraints (empty_schema\<lparr>Tables := [orders_table orders_nextval]\<rparr>) = []"
  using orders_create_result orders_alter_result orders_dump_result
  by (simp add: orders_table_def empty_schema_def)

section \<open>Looking a table up\<close>





section \<open>Sequences\<close>



section \<open>The identifier-unquoting helper\<close>

text \<open>
  C9. The claim is that \<open>unquote\<close> returns a string for every input, the one-byte string
  \<open>"\<close> included, with no slice out of range. On that string both \<open>HasPrefix\<close> and
  \<open>HasSuffix\<close> hold, so the helper evaluates \<open>name[1:0]\<close>, which panics. The column-list
  parser passes the string on unchanged, and a \<open>CREATE INDEX\<close> statement whose column list
  is a lone double quote takes the whole parse down with it.
\<close>

theorem unquote_lone_quote_panics:
  "unquote [dquote] = Inl SliceBoundsOutOfRange \<and>
   parseColumnList [dquote] = Inl SliceBoundsOutOfRange \<and>
   ParseDump (Some lone_quote_index) = Inl (Panic SliceBoundsOutOfRange)"
  by code_simp

text \<open>For every other input the helper does return: the panic needs exactly that string.\<close>

lemma unquote_total_but_lone_quote:
  "name \<noteq> [dquote] \<Longrightarrow> \<exists>r. unquote name = Inr r"
proof -
  assume ne: "name \<noteq> [dquote]"
  show ?thesis
  proof (cases "HasPrefix name [dquote] \<and> HasSuffix name [dquote]")
    case False
    then show ?thesis by (auto simp: unquote_def)
  next
    case True
    then have "name \<noteq> []" by (auto simp: HasPrefix_def)
    with True ne have "2 \<le> length name"
      by (cases name; cases "tl name") (auto simp: HasPrefix_def)
    with True show ?thesis by (simp add: unquote_def slice_def)
  qed
qed

section \<open>The three back-fills\<close>

text \<open>
  C8. The claim is that a set-default, add-identity or sequence-owned-by statement whose
  target is not in the model leaves the model unchanged and raises no error. The statement
  below is taken by the set-default branch; the model is empty, so its target is not there;
  and the table name is a lone double quote, on which \<open>unquote\<close> panics (see C9).
\<close>

theorem set_default_lone_quote_panics:
  "recognize lone_quote_default = AlterSetDefault [(0, 0, 43), (3, 41, 42), (2, 27, 28), (1, 12, 13)] \<and>
   Tables empty_schema = [] \<and>
   processStatement lone_quote_default ''public'' empty_schema = Inl SliceBoundsOutOfRange"
  by code_simp

text \<open>
  When no identifier panics, the back-fills do what the claim says. \<open>update_first\<close> changes
  at most the first element that satisfies the test; \<open>update_column\<close> changes at most one
  field of one column of the table \<open>GetTable\<close> points to, and nothing when there is no such
  table or no such column.
\<close>

lemma update_first_none: "\<not> (\<exists>x \<in> set xs. P x) \<Longrightarrow> update_first P f xs = xs"
  by (induction xs) auto

lemma update_first_frame:
  "update_first P f xs = xs \<or>
   (\<exists>i < length xs. P (xs ! i) \<and> (\<forall>j < i. \<not> P (xs ! j)) \<and> update_first P f xs = xs[i := f (xs ! i)])"
proof (induction xs)
  case Nil
  then show ?case by simp
next
  case (Cons x xs)
  show ?case
  proof (cases "P x")
    case True
    then have "P ((x # xs) ! 0) \<and> (\<forall>j < 0. \<not> P ((x # xs) ! j)) \<and>
               update_first P f (x # xs) = (x # xs)[0 := f ((x # xs) ! 0)]"
      by simp
    then show ?thesis by blast
  next
    case False
    from Cons show ?thesis
    proof
      assume "update_first P f xs = xs"
      with False show ?thesis by simp
    next
      assume "\<exists>i < length xs. P (xs ! i) \<and> (\<forall>j < i. \<not> P (xs ! j)) \<and> update_first P f xs = xs[i := f (xs ! i)]"
      then obtain i where i: "i < length xs" "P (xs ! i)" "\<forall>j < i. \<not> P (xs ! j)"
        "update_first P f xs = xs[i := f (xs ! i)]" by blast
      from i False have "Suc i < length (x # xs) \<and> P ((x # xs) ! Suc i) \<and>
          (\<forall>j < Suc i. \<not> P ((x # xs) ! j)) \<and>
          update_first P f (x # xs) = (x # xs)[Suc i := f ((x # xs) ! Suc i)]"
        by (auto simp: less_Suc_eq_0_disj)
      then show ?thesis by blast
    qed
  qed
qed

lemma update_column_no_table:
  "GetTable sch s n = None \<Longrightarrow> update_column sch s n col f = sch"
  by (simp add: update_column_def)

lemma update_column_no_column:
  assumes "GetTable sch s n = Some i"
    and "\<not> (\<exists>c \<in> set (Table_Columns (Tables sch ! i)). Column_Name c = col)"
  shows "update_column sch s n col f = sch"
proof -
  from assms(2) have "update_first (\<lambda>c. Column_Name c = col) f (Table_Columns (Tables sch ! i)) =
      Table_Columns (Tables sch ! i)"
    by (rule update_first_none)
  then show ?thesis by (simp add: update_column_def assms(1))
qed

lemma update_column_frame:
  "update_column sch s n col f = sch \<or>
   (\<exists>i j. GetTable sch s n = Some i \<and> i < length (Tables sch) \<and>
          j < length (Table_Columns (Tables sch ! i)) \<and>
          Column_Name (Table_Columns (Tables sch ! i) ! j) = col \<and>
          update_column sch s n col f =
            sch\<lparr>Tables := (Tables sch)
              [i := (Tables sch ! i)
                 \<lparr>Table_Columns := (Table_Columns (Tables sch ! i))
                    [j := f (Table_Columns (Tables sch ! i) ! j)]\<rparr>]\<rparr>)"
proof (cases "GetTable sch s n")
  case None
  then show ?thesis by (simp add: update_column_def)
next
  case (Some i)
  let ?cols = "Table_Columns (Tables sch ! i)"
  from update_first_frame[of "\<lambda>c. Column_Name c = col" f ?cols] show ?thesis
  proof
    assume "update_first (\<lambda>c. Column_Name c = col) f ?cols = ?cols"
    then show ?thesis by (simp add: update_column_def Some)
  next
    assume "\<exists>j < length ?cols. Column_Name (?cols ! j) = col \<and> (\<forall>k < j. Column_Name (?cols ! k) \<noteq> col) \<and>
       update_first (\<lambda>c. Column_Name c = col) f ?cols = ?cols[j := f (?cols ! j)]"
    then obtain j where j: "j < length ?cols" "Column_Name (?cols ! j) = col"
      "update_first (\<lambda>c. Column_Name c = col) f ?cols = ?cols[j := f (?cols ! j)]" by blast
    from j GetTable_Some_bound[OF Some] Some show ?thesis
      by (auto simp: update_column_def)
  qed
qed

section \<open>The top-level comma splitter\<close>

lemma in_range_not_ascii: "in_range c lo hi \<Longrightarrow> 0x80 \<le> lo \<Longrightarrow> \<not> is_ascii c"
  by (simp add: in_range_def is_ascii_def)

lemma not_ascii_not_delim:
  "\<not> is_ascii c \<Longrightarrow> c \<noteq> CHR ''('' \<and> c \<noteq> CHR '')'' \<and> c \<noteq> CHR '',''"
  by (auto simp: is_ascii_def)

lemma utf8_width_cases:
  "utf8_width (b # bs) = 0 \<or>
   (utf8_width (b # bs) = 1 \<and> is_ascii b) \<or>
   (\<exists>b1 r. bs = b1 # r \<and> utf8_width (b # bs) = 2 \<and> \<not> is_ascii b \<and> \<not> is_ascii b1) \<or>
   (\<exists>b1 b2 r. bs = b1 # b2 # r \<and> utf8_width (b # bs) = 3 \<and>
        \<not> is_ascii b \<and> \<not> is_ascii b1 \<and> \<not> is_ascii b2) \<or>
   (\<exists>b1 b2 b3 r. bs = b1 # b2 # b3 # r \<and> utf8_width (b # bs) = 4 \<and>
        \<not> is_ascii b \<and> \<not> is_ascii b1 \<and> \<not> is_ascii b2 \<and> \<not> is_ascii b3)"
proof (cases "is_ascii b")
  case True
  then show ?thesis by simp
next
  case na: False
  show ?thesis
  proof (cases "in_range b 0xC2 0xDF")
    case True
    show ?thesis
    proof (cases bs)
      case Nil
      with na True show ?thesis by simp
    next
      case (Cons b1 r)
      with na True show ?thesis by (simp add: in_range_not_ascii)
    qed
  next
    case n2: False
    show ?thesis
    proof (cases "in_range b 0xE0 0xEF")
      case True
      show ?thesis
      proof (cases bs)
        case Nil
        with na n2 True show ?thesis by simp
      next
        case c1: (Cons b1 r1)
        show ?thesis
        proof (cases r1)
          case Nil
          with na n2 True c1 show ?thesis by simp
        next
          case (Cons b2 r)
          with na n2 True c1 show ?thesis by (auto dest: in_range_not_ascii)
        qed
      qed
    next
      case n3: False
      show ?thesis
      proof (cases "in_range b 0xF0 0xF4")
        case False
        with na n2 n3 show ?thesis by simp
      next
        case True
        show ?thesis
        proof (cases bs)
          case Nil
          with na n2 n3 True show ?thesis by simp
        next
          case c1: (Cons b1 r1)
          show ?thesis
          proof (cases r1)
            case Nil
            with na n2 n3 True c1 show ?thesis by simp
          next
            case c2: (Cons b2 r2)
            show ?thesis
            proof (cases r2)
              case Nil
              with na n2 n3 True c1 c2 show ?thesis by simp
            next
              case (Cons b3 r)
              with na n2 n3 True c1 c2 show ?thesis by (auto dest: in_range_not_ascii)
            qed
          qed
        qed
      qed
    qed
  qed
qed

lemma utf8_chunk_not_ascii:
  assumes "1 < utf8_width (b # bs)" and "c \<in> set (take (utf8_width (b # bs)) (b # bs))"
  shows "\<not> is_ascii c"
  using utf8_width_cases[of b bs] assms
  by (auto simp del: utf8_width.simps simp: eval_nat_numeral)

lemma utf8_chunk_length:
  assumes "1 < utf8_width (b # bs)"
  shows "utf8_width (b # bs) \<le> length (b # bs)"
  using utf8_width_cases[of b bs] assms
  by (auto simp del: utf8_width.simps)

lemma paren_depth_append: "paren_depth (xs @ ys) = paren_depth xs + paren_depth ys"
  by (induction xs) auto

lemma paren_depth_no_paren:
  "\<forall>c \<in> set xs. c \<noteq> CHR ''('' \<and> c \<noteq> CHR '')'' \<Longrightarrow> paren_depth xs = 0"
  by (induction xs) auto

lemma Join_Cons: "ps \<noteq> [] \<Longrightarrow> Join (p # ps) sep = p @ sep @ Join ps sep"
  by (cases ps) simp_all

lemma Join_snoc_append: "Join (ps @ [c @ z]) sep = Join (ps @ [c]) sep @ z"
proof (induction ps)
  case Nil
  show ?case by simp
next
  case (Cons p ps)
  have "Join (p # (ps @ [c @ z])) sep = p @ sep @ Join (ps @ [c @ z]) sep"
    by (rule Join_Cons) simp
  moreover have "Join (p # (ps @ [c])) sep = p @ sep @ Join (ps @ [c]) sep"
    by (rule Join_Cons) simp
  ultimately show ?case using Cons by simp
qed

lemma Join_snoc_empty: "Join ((ps @ [c]) @ [[]]) sep = Join (ps @ [c]) sep @ sep"
proof (induction ps)
  case Nil
  show ?case by simp
next
  case (Cons p ps)
  have "Join (p # ((ps @ [c]) @ [[]])) sep = p @ sep @ Join ((ps @ [c]) @ [[]]) sep"
    by (rule Join_Cons) simp
  moreover have "Join (p # (ps @ [c])) sep = p @ sep @ Join (ps @ [c]) sep"
    by (rule Join_Cons) simp
  ultimately show ?case using Cons by simp
qed


lemma sbp_loop_join:
  "valid_utf8 s \<Longrightarrow> sbp_loop s parts d cur = (P, C) \<Longrightarrow>
     Join (P @ [C]) '','' = Join (parts @ [cur]) '','' @ s \<and>
     (C = [] \<longrightarrow> (s = [] \<and> cur = []) \<or>
                  (s \<noteq> [] \<and> last s = CHR '','' \<and> d + paren_depth (butlast s) = 0))"
proof (induction s parts d cur arbitrary: P C rule: sbp_loop.induct)
  case (1 parts depth current)
  then show ?case by simp
next
  case (2 b bs parts depth current)
  let ?w = "utf8_width (b # bs)"
  from "2.prems"(1) have w0: "?w \<noteq> 0" and vrest: "valid_utf8 (drop ?w (b # bs))"
    by (simp_all del: utf8_width.simps split: if_splits)
  show ?case
  proof (cases "1 < ?w")
    case True
    define chunk where "chunk = take ?w (b # bs)"
    define rest where "rest = drop ?w (b # bs)"
    from True "2.prems"(2) w0 have run: "sbp_loop rest parts depth (current @ chunk) = (P, C)"
      by (simp del: utf8_width.simps add: chunk_def rest_def)
    from vrest have vr: "valid_utf8 rest" by (simp add: rest_def)
    note ih = "2.IH"(2)[OF w0 True vr[unfolded rest_def] run[unfolded rest_def chunk_def]]
    have s: "b # bs = chunk @ rest" by (simp add: chunk_def rest_def)
    have chunk_ne: "chunk \<noteq> []" using True by (simp del: utf8_width.simps add: chunk_def)
    have nodelim: "\<forall>c \<in> set chunk. c \<noteq> CHR ''('' \<and> c \<noteq> CHR '')''"
      using utf8_chunk_not_ascii[OF True] not_ascii_not_delim unfolding chunk_def by blast
    have pd: "paren_depth chunk = 0" by (rule paren_depth_no_paren[OF nodelim])
    from ih have ih1: "Join (P @ [C]) '','' = Join (parts @ [current @ chunk]) '','' @ rest"
      and ih2: "C = [] \<longrightarrow> (rest = [] \<and> current @ chunk = []) \<or>
                  (rest \<noteq> [] \<and> last rest = CHR '','' \<and> depth + paren_depth (butlast rest) = 0)"
      by (simp_all add: chunk_def rest_def)
    have j: "Join (P @ [C]) '','' = Join (parts @ [current]) '','' @ b # bs"
      unfolding s ih1 Join_snoc_append by simp
    have k: "C = [] \<longrightarrow> (b # bs \<noteq> [] \<and> last (b # bs) = CHR '','' \<and>
                depth + paren_depth (butlast (b # bs)) = 0)"
    proof
      assume "C = []"
      with ih2 chunk_ne have r: "rest \<noteq> []" "last rest = CHR '',''"
        "depth + paren_depth (butlast rest) = 0" by auto
      have l: "last (chunk @ rest) = last rest" using r(1) by simp
      have bl: "butlast (chunk @ rest) = chunk @ butlast rest"
        using r(1) by (simp add: butlast_append)
      show "b # bs \<noteq> [] \<and> last (b # bs) = CHR '','' \<and>
                depth + paren_depth (butlast (b # bs)) = 0"
        unfolding s l bl paren_depth_append pd using r by simp
    qed
    from j k show ?thesis by blast
  next
    case False
    with w0 have w1: "?w = 1" by simp
    then have vbs: "valid_utf8 bs" using vrest by simp
    have nw: "\<not> 1 < ?w" using w1 by simp
    show ?thesis
    proof (cases "b = CHR ''(''")
      case True
      with "2.prems"(2) w0 nw have run: "sbp_loop bs parts (depth + 1) (current @ [b]) = (P, C)"
        by (simp del: utf8_width.simps)
      note ih = "2.IH"(3)[OF w0 nw True vbs run]
      from ih True show ?thesis
        using Join_snoc_append[of parts current "[b]" "'',''"] by auto
    next
      case no: False
      show ?thesis
      proof (cases "b = CHR '')''")
        case True
        with "2.prems"(2) w0 nw no have run: "sbp_loop bs parts (depth - 1) (current @ [b]) = (P, C)"
          by (simp del: utf8_width.simps)
        note ih = "2.IH"(4)[OF w0 nw no True vbs run]
        from ih True show ?thesis
          using Join_snoc_append[of parts current "[b]" "'',''"] by auto
      next
        case nc: False
        show ?thesis
        proof (cases "b = CHR '',''")
          case comma: True
          show ?thesis
          proof (cases "depth = 0")
            case True
            with "2.prems"(2) w0 nw no nc comma
            have run: "sbp_loop bs (parts @ [current]) depth [] = (P, C)"
              by (simp del: utf8_width.simps)
            note ih = "2.IH"(5)[OF w0 nw no nc comma True vbs run]
            from ih True comma show ?thesis
              using Join_snoc_empty[of parts current "'',''"] by auto
          next
            case False
            with "2.prems"(2) w0 nw no nc comma
            have run: "sbp_loop bs parts depth (current @ [b]) = (P, C)"
              by (simp del: utf8_width.simps)
            note ih = "2.IH"(6)[OF w0 nw no nc comma False vbs run]
            from ih comma show ?thesis
              using Join_snoc_append[of parts current "[b]" "'',''"] by auto
          qed
        next
          case other: False
          with "2.prems"(2) w0 nw no nc
          have run: "sbp_loop bs parts depth (current @ [b]) = (P, C)"
            by (simp del: utf8_width.simps)
          note ih = "2.IH"(7)[OF w0 nw no nc other vbs run]
          from ih no nc other show ?thesis
            using Join_snoc_append[of parts current "[b]" "'',''"] by auto
        qed
      qed
    qed
  qed
qed


text \<open>
  C10, as the claim states it: for every input string that does not end with a comma at
  depth zero, the parts joined with commas are the input. A byte that is not valid UTF-8
  is read as the replacement rune and written back as its three bytes, so the one-byte
  string 0xFF comes back as one part of three bytes.
\<close>

theorem split_body_parts_invalid_utf8:
  "splitBodyParts [CHR 0xFF] = [rune_error] \<and> \<not> ends_with_top_comma [CHR 0xFF] \<and>
   Join (splitBodyParts [CHR 0xFF]) '','' \<noteq> [CHR 0xFF]"
  by code_simp

text \<open>
  C10, amended: for every input string that is valid UTF-8 and does not end with a comma at
  parenthesis depth zero, joining the returned parts with single commas gives back the
  input string exactly; the parts are therefore consecutive pieces of the input, in its
  order, and the only bytes lost are the commas between them.
\<close>

theorem split_body_parts_join:
  assumes "valid_utf8 body" and "\<not> ends_with_top_comma body"
  shows "Join (splitBodyParts body) '','' = body"
proof -
  obtain P C where run: "sbp_loop body [] 0 [] = (P, C)" by (cases "sbp_loop body [] 0 []")
  from sbp_loop_join[OF assms(1) run]
  have j: "Join (P @ [C]) '','' = body"
    and e: "C = [] \<longrightarrow> body = [] \<or> (body \<noteq> [] \<and> last body = CHR '','' \<and> paren_depth (butlast body) = 0)"
    by simp_all
  show ?thesis
  proof (cases "C = []")
    case False
    with run j show ?thesis by (simp add: splitBodyParts_def)
  next
    case True
    with e assms(2) have b: "body = []" by (auto simp: ends_with_top_comma_def)
    with run True show ?thesis by (simp add: splitBodyParts_def)
  qed
qed

theorem split_body_parts_join_witness:
  "valid_utf8 ''a numeric(10,2), b text'' \<and> \<not> ends_with_top_comma ''a numeric(10,2), b text'' \<and>
   splitBodyParts ''a numeric(10,2), b text'' = [''a numeric(10,2)'', '' b text''] \<and>
   Join (splitBodyParts ''a numeric(10,2), b text'') '','' = ''a numeric(10,2), b text''"
proof -
  have v: "valid_utf8 ''a numeric(10,2), b text''" by code_simp
  have e: "\<not> ends_with_top_comma ''a numeric(10,2), b text''" by code_simp
  have s: "splitBodyParts ''a numeric(10,2), b text'' = [''a numeric(10,2)'', '' b text'']" by code_simp
  from split_body_parts_join[OF v e] v e s show ?thesis by simp
qed

section \<open>The version string\<close>

lemma results_wf:
  assumes "y \<in> set (results r st)" and "m_rest st = drop (m_pos st) s"
  shows "m_rest y = drop (m_pos y) s"
proof -
  from results_advance[OF assms(1)] obtain u where
    u: "m_rest st = u @ m_rest y" "m_pos y = m_pos st + length u" by blast
  have "drop (m_pos y) s = drop (length u) (drop (m_pos st) s)"
    by (simp add: u(2) add.commute)
  also have "\<dots> = drop (length u) (u @ m_rest y)" using assms(2) u(1) by simp
  also have "\<dots> = m_rest y" by simp
  finally show ?thesis by simp
qed

lemma pgversion_match:
  assumes "y \<in> set (results rePgVersion (MState q pv (drop q s) []))"
  shows "\<exists>a u. m_caps y = [(1, length a + 29, length a + 29 + length u)] \<and> u \<noteq> [] \<and>
               list_all (cmatch (CNeg CSpace)) u \<and>
               s = a @ ''Dumped from database version '' @ u @ m_rest y"
proof -
  let ?D = "''Dumped from database version ''"
  let ?st0 = "MState q pv (drop q s) []"
  have re: "rePgVersion = Seq (lit ''--'') (Seq ws0 (Seq (lit ?D) (Seq (Grp 1 nonspace1) Eps)))"
    by (simp add: rePgVersion_def seqs_def)
  from assms obtain z1 where
    z1: "z1 \<in> set (results (lit ''--'') ?st0)" and
    y1: "y \<in> set (results (Seq ws0 (Seq (lit ?D) (Seq (Grp 1 nonspace1) Eps))) z1)"
    unfolding re using results_Seq_mem by blast
  from y1 obtain z2 where
    z2: "z2 \<in> set (results ws0 z1)" and
    y2: "y \<in> set (results (Seq (lit ?D) (Seq (Grp 1 nonspace1) Eps)) z2)"
    using results_Seq_mem by blast
  from y2 obtain z3 where
    z3: "z3 \<in> set (results (lit ?D) z2)" and
    y3: "y \<in> set (results (Seq (Grp 1 nonspace1) Eps) z3)"
    using results_Seq_mem by blast
  from y3 obtain z4 where
    z4: "z4 \<in> set (results (Grp 1 nonspace1) z3)" and
    y: "y \<in> set (results Eps z4)"
    using results_Seq_mem by blast
  have wf0: "m_rest ?st0 = drop (m_pos ?st0) s" by simp
  note wf1 = results_wf[OF z1 wf0]
  note wf2 = results_wf[OF z2 wf1]
  note wf3 = results_wf[OF z3 wf2]
  have c1: "m_caps z1 = []" using z1 by (simp add: results_lit_mem)
  have c2: "m_caps z2 = []" using z2 c1 by (auto simp: ws0_def results_Star_mem)
  from z3 have z3s: "starts_with z2 ?D" "z3 = step z2 ?D" by (simp_all add: results_lit_mem)
  have c3: "m_caps z3 = []" using z3s c2 by simp
  have p3: "m_pos z3 = m_pos z2 + 29" using z3s by simp
  from z4 obtain y' where y': "y' \<in> set (results nonspace1 z3)"
    "z4 = MState (m_pos y') (m_prev y') (m_rest y') ((1, m_pos z3, m_pos y') # m_caps y')"
    using results_Grp_mem by blast
  from y'(1) obtain u where u: "u \<noteq> []" "starts_with z3 u" "list_all (cmatch (CNeg CSpace)) u" "y' = step z3 u"
    unfolding nonspace1_def results_plus_mem by blast
  from y have yz: "y = z4" by (simp add: results_Eps_mem)
  have caps: "m_caps y = [(1, m_pos z3, m_pos z3 + length u)]"
    using yz y'(2) u(4) c3 by simp
  have ry: "m_rest y = drop (length u) (m_rest z3)" using yz y'(2) u(4) by simp
  from u(2) have r3: "m_rest z3 = u @ m_rest y"
    unfolding starts_with_def ry by (metis append_take_drop_id)
  from z3s(1) have "m_rest z2 = ?D @ drop (length ?D) (m_rest z2)"
    unfolding starts_with_def by (metis append_take_drop_id)
  with z3s(2) have r2: "m_rest z2 = ?D @ m_rest z3" by simp
  define a where "a = take (m_pos z2) s"
  have "s = a @ drop (m_pos z2) s" by (simp add: a_def)
  also have "drop (m_pos z2) s = ?D @ u @ m_rest y" using wf2 r2 r3 by simp
  finally have s: "s = a @ ?D @ u @ m_rest y" .
  have "length (drop (m_pos z2) s) = length (?D @ u @ m_rest y)"
    using wf2 r2 r3 by simp
  then have "m_pos z2 \<le> length s" by simp
  then have la: "m_pos z2 = length a" by (simp add: a_def)
  have caps': "m_caps y = [(1, length a + 29, length a + 29 + length u)]"
    using caps p3 la by simp
  from caps' u(1) u(3) s show ?thesis by blast
qed

lemma version_match_props:
  assumes "FindIndex rePgVersion s = Some m"
  shows "grp s m 1 \<noteq> [] \<and> list_all (cmatch (CNeg CSpace)) (grp s m 1) \<and>
         (\<exists>a b. s = a @ ''Dumped from database version '' @ grp s m 1 @ b)"
proof -
  from FindIndex_Some[OF assms] obtain q pv y where
    y: "y \<in> set (results rePgVersion (MState q pv (drop q s) []))" and
    m: "m = (0, q, m_pos y) # m_caps y" by blast
  from pgversion_match[OF y] obtain a u where
    c: "m_caps y = [(1, length a + 29, length a + 29 + length u)]" and u: "u \<noteq> []"
    "list_all (cmatch (CNeg CSpace)) u" and s: "s = a @ ''Dumped from database version '' @ u @ m_rest y"
    by blast
  have "drop (length a + 29) s = u @ m_rest y"
    by (subst s) simp
  then have g: "grp s m 1 = u" by (simp add: grp_def m c)
  from u s show ?thesis unfolding g by blast
qed

lemma seg_step_version_set:
  assumes "PgVersion (seg_schema st) = []" and "version_line l"
  shows "PgVersion (seg_schema (seg_step st l)) = version_token l"
  using assms
  by (auto simp: seg_step_def version_line_def version_token_def MatchString_def Let_def
           split: option.splits)

lemma seg_step_version_keep:
  assumes "PgVersion (seg_schema st) \<noteq> []"
  shows "PgVersion (seg_schema (seg_step st l)) = PgVersion (seg_schema st)"
  using assms by (auto simp: seg_step_def Let_def split: option.splits)

lemma seg_step_version_skip:
  assumes "PgVersion (seg_schema st) = []" and "\<not> version_line l"
  shows "PgVersion (seg_schema (seg_step st l)) = []"
  using assms
  by (auto simp: seg_step_def version_line_def MatchString_def Let_def split: option.splits)

lemma seg_fold_version_keep:
  "PgVersion (seg_schema st) \<noteq> [] \<Longrightarrow>
     PgVersion (seg_schema (foldl seg_step st ls)) = PgVersion (seg_schema st)"
  by (induction ls arbitrary: st) (simp_all add: seg_step_version_keep)

lemma seg_fold_version_skip:
  "PgVersion (seg_schema st) = [] \<Longrightarrow> list_all (\<lambda>x. \<not> version_line x) ls \<Longrightarrow>
     PgVersion (seg_schema (foldl seg_step st ls)) = []"
  by (induction ls arbitrary: st) (simp_all add: seg_step_version_skip)

lemma version_token_props:
  assumes "version_line l"
  shows "version_token l \<noteq> [] \<and> list_all (cmatch (CNeg CSpace)) (version_token l) \<and>
         (\<exists>a b. TrimSpace l = a @ ''Dumped from database version '' @ version_token l @ b)"
proof -
  from assms obtain m where m: "FindIndex rePgVersion (TrimSpace l) = Some m"
    by (auto simp: version_line_def MatchString_def)
  from version_match_props[OF m] show ?thesis by (simp add: version_token_def m)
qed

lemma seg_fold_first_version:
  assumes "PgVersion (seg_schema st) = []" and "list_all (\<lambda>x. \<not> version_line x) pre"
    and "version_line l"
  shows "PgVersion (seg_schema (foldl seg_step st (pre @ l # post))) = version_token l"
proof -
  let ?st1 = "foldl seg_step st pre"
  have a: "PgVersion (seg_schema ?st1) = []" by (rule seg_fold_version_skip[OF assms(1,2)])
  have b: "PgVersion (seg_schema (seg_step ?st1 l)) = version_token l"
    by (rule seg_step_version_set[OF a assms(3)])
  from version_token_props[OF assms(3)] have "version_token l \<noteq> []" by simp
  with b have "PgVersion (seg_schema (seg_step ?st1 l)) \<noteq> []" by simp
  from seg_fold_version_keep[OF this, of post] b show ?thesis by simp
qed

lemma processStatement_PgVersion:
  assumes "processStatement stmt sp sch = Inr sch'"
  shows "PgVersion sch' = PgVersion sch"
proof (cases "recognize stmt")
  case (CreateExtension m)
  with assms have "stmtCreateExtension stmt m sch = Inr sch'" by (simp add: processStatement_def)
  from stmtCreateExtension_effect[OF this] show ?thesis by simp
next
  case (CreateTypeEnum m)
  with assms have "stmtCreateTypeEnum stmt m sp sch = Inr sch'" by (simp add: processStatement_def)
  from stmtCreateTypeEnum_effect[OF this] show ?thesis by simp
next
  case (CreateSequence m)
  with assms have "stmtCreateSequence stmt m sp sch = Inr sch'" by (simp add: processStatement_def)
  from stmtCreateSequence_effect[OF this] show ?thesis by simp
next
  case (CreateTable m)
  with assms have "stmtCreateTable stmt m sp sch = Inr sch'" by (simp add: processStatement_def)
  from stmtCreateTable_effect[OF this] show ?thesis by simp
next
  case (AlterAddConstraint m)
  with assms have "stmtAlterAddConstraint stmt m sp sch = Inr sch'" by (simp add: processStatement_def)
  from stmtAlterAddConstraint_effect[OF this] show ?thesis by simp
next
  case (CreateIndex m)
  with assms have "stmtCreateIndex stmt m sp sch = Inr sch'" by (simp add: processStatement_def)
  from stmtCreateIndex_effect[OF this] show ?thesis by simp
next
  case (AlterSetDefault m)
  with assms have "stmtAlterSetDefault stmt m sp sch = Inr sch'" by (simp add: processStatement_def)
  from stmtAlterSetDefault_effect[OF this] show ?thesis by (auto simp: update_column_others)
next
  case (AlterAddIdentity m)
  with assms have "stmtAlterAddIdentity stmt m sp sch = Inr sch'" by (simp add: processStatement_def)
  from stmtAlterAddIdentity_effect[OF this] show ?thesis by (auto simp: update_column_others)
next
  case (AlterSeqOwned m)
  with assms have "stmtAlterSeqOwned stmt m sp sch = Inr sch'" by (simp add: processStatement_def)
  from stmtAlterSeqOwned_effect[OF this] show ?thesis by simp
next
  case (CreateRule m)
  with assms have "stmtCreateRule stmt m sp sch = Inr sch'" by (simp add: processStatement_def)
  from stmtCreateRule_effect[OF this] show ?thesis by simp
next
  case NoShape
  with assms show ?thesis by (simp add: processStatement_def)
qed

lemma process_all_PgVersion:
  "process_all sis sch = Inr sch' \<Longrightarrow> PgVersion sch' = PgVersion sch"
proof (induction sis arbitrary: sch)
  case Nil
  then show ?case by simp
next
  case (Cons si sis)
  from Cons.prems obtain sch1 where
    a: "processStatement (si_stmt si) (si_searchPath si) sch = Inr sch1" and
    b: "process_all sis sch1 = Inr sch'"
    by (auto simp: and_then_def split: sum.splits)
  from Cons.IH[OF b] processStatement_PgVersion[OF a] show ?case by simp
qed

section \<open>Dollar-quoted regions\<close>











subsection \<open>The line that opens a region\<close>







lemma list_all_takeWhile: "list_all P (takeWhile P xs)"
  by (induction xs) simp_all








section \<open>The version token\<close>

text \<open>
  The matches of a pattern as a list: a literal has one match at most, a greedy star has
  its longest match first, and every other match of it stops before a byte of its class.
\<close>

lemma results_lit_list:
  "results (lit s) st = (if starts_with st s then [step st s] else [])"
proof (induction s arbitrary: st)
  case Nil
  show ?case by (cases st) (simp add: lit_def starts_with_def)
next
  case (Cons a s)
  obtain p pv rest cs where st: "st = MState p pv rest cs" by (cases st)
  have l: "lit (a # s) = Seq (Ch (CLit a)) (lit s)" by (simp add: lit_def)
  show ?case
  proof (cases rest)
    case Nil
    then show ?thesis by (simp add: l st starts_with_def)
  next
    case (Cons x xs)
    show ?thesis
    proof (cases "x = a")
      case False
      with Cons show ?thesis by (simp add: l st starts_with_def)
    next
      case True
      let ?st1 = "MState (Suc p) (Some a) xs cs"
      have r: "results (lit (a # s)) st = results (lit s) ?st1"
        by (simp add: l st Cons True)
      have sw: "starts_with st (a # s) = starts_with ?st1 s"
        by (simp add: st Cons True starts_with_def)
      have stp: "step st (a # s) = step ?st1 s"
        by (simp add: st Cons True step_def)
      show ?thesis unfolding r sw stp by (rule Cons.IH)
    qed
  qed
qed

lemma star_ends_last:
  "\<exists>zs. star_ends c p pv rest cs =
          zs @ [step (MState p pv rest cs) (takeWhile (cmatch c) rest)] \<and>
        (\<forall>z \<in> set zs. m_rest z \<noteq> [] \<and> cmatch c (hd (m_rest z)))"
proof (induction rest arbitrary: p pv)
  case Nil
  show ?case by simp
next
  case (Cons x xs)
  show ?case
  proof (cases "cmatch c x")
    case False
    then show ?thesis by simp
  next
    case True
    from Cons[of "Suc p" "Some x"] obtain zs where
      zs: "star_ends c (Suc p) (Some x) xs cs =
             zs @ [step (MState (Suc p) (Some x) xs cs) (takeWhile (cmatch c) xs)]"
          "\<forall>z \<in> set zs. m_rest z \<noteq> [] \<and> cmatch c (hd (m_rest z))" by blast
    have e: "step (MState (Suc p) (Some x) xs cs) (takeWhile (cmatch c) xs) =
             step (MState p pv (x # xs) cs) (takeWhile (cmatch c) (x # xs))"
      using True by (simp add: step_def)
    have "star_ends c p pv (x # xs) cs =
            (MState p pv (x # xs) cs # zs) @
            [step (MState p pv (x # xs) cs) (takeWhile (cmatch c) (x # xs))]"
      using True zs(1) e by simp
    moreover have "\<forall>z \<in> set (MState p pv (x # xs) cs # zs). m_rest z \<noteq> [] \<and> cmatch c (hd (m_rest z))"
      using True zs(2) by simp
    ultimately show ?thesis by blast
  qed
qed

lemma results_Star_first:
  "\<exists>zs. results (Star c) st = step st (takeWhile (cmatch c) (m_rest st)) # zs \<and>
        (\<forall>z \<in> set zs. m_rest z \<noteq> [] \<and> cmatch c (hd (m_rest z)))"
proof -
  obtain p pv rest cs where st: "st = MState p pv rest cs" by (cases st)
  from star_ends_last[of c p pv rest cs] obtain zs where
    zs: "star_ends c p pv rest cs = zs @ [step st (takeWhile (cmatch c) rest)]"
        "\<forall>z \<in> set zs. m_rest z \<noteq> [] \<and> cmatch c (hd (m_rest z))"
    unfolding st by blast
  have "results (Star c) st = step st (takeWhile (cmatch c) (m_rest st)) # rev zs"
    by (simp add: st zs(1)[unfolded st])
  moreover have "\<forall>z \<in> set (rev zs). m_rest z \<noteq> [] \<and> cmatch c (hd (m_rest z))"
    using zs(2) by simp
  ultimately show ?thesis by blast
qed

lemma results_Seq_list: "results (Seq a b) st = concat (map (results b) (results a st))"
  by (cases st) simp

lemma results_Eps_list: "results Eps st = [st]"
  by (cases st) simp

lemma concat_first: "\<forall>z \<in> set zs. f z = [] \<Longrightarrow> concat (map f (x # zs)) = f x"
  by (induction zs) simp_all

lemma results_Ch_list:
  "results (Ch c) st =
     (if m_rest st \<noteq> [] \<and> cmatch c (hd (m_rest st)) then [step st [hd (m_rest st)]] else [])"
proof -
  obtain p pv rest cs where st: "st = MState p pv rest cs" by (cases st)
  show ?thesis by (cases rest) (simp_all add: st step_def)
qed

text \<open>
  At every offset of a line the version pattern has a match exactly when \<open>version_at\<close> gives
  a token there, and the group of its first match is that token; so the search finds what
  \<open>dumped_version\<close> says.
\<close>

lemma results_Grp_list:
  "results (Grp n r) st =
     map (\<lambda>st'. MState (m_pos st') (m_prev st') (m_rest st') ((n, m_pos st, m_pos st') # m_caps st'))
         (results r st)"
  by (cases st) simp

lemma concat_results_Eps: "concat (map (results Eps) xs) = xs"
  by (induction xs) (simp_all add: results_Eps_list)

lemma rePgVersion_unfold:
  "rePgVersion = Seq (lit ''--'') (Seq ws0 (Seq (lit version_phrase) (Seq (Grp 1 nonspace1) Eps)))"
  by (simp add: rePgVersion_def seqs_def version_phrase_def)

lemma pgversion_results:
  "(version_at s = None \<longrightarrow> results rePgVersion (MState p pv s []) = []) \<and>
   (\<forall>token. version_at s = Some token \<longrightarrow>
      (\<exists>y ys q. results rePgVersion (MState p pv s []) = y # ys \<and>
                m_caps y = [(1, p + q, p + q + length token)] \<and>
                take (length token) (drop q s) = token))"
proof -
  let ?st0 = "MState p pv s []"
  let ?R3 = "Seq (Grp 1 nonspace1) Eps"
  let ?R2 = "Seq (lit version_phrase) ?R3"
  let ?R1 = "Seq ws0 ?R2"
  define s1 where "s1 = drop 2 s"
  define ws where "ws = takeWhile (cmatch CSpace) s1"
  define found where "found = dropWhile (cmatch CSpace) s1"
  define t where "t = drop (length version_phrase) found"
  define tok where "tok = takeWhile (\<lambda>c. \<not> cmatch CSpace c) t"
  have va: "version_at s =
              (if HasPrefix s ''--'' \<and> HasPrefix found version_phrase \<and> tok \<noteq> [] then Some tok else None)"
    by (simp add: version_at_def Let_def s1_def found_def t_def tok_def)
  have fd: "found = drop (length ws) s1" unfolding found_def ws_def by (rule dropWhile_eq_drop)
  show ?thesis
  proof (cases "HasPrefix s ''--''")
    case False
    then have "results (lit ''--'') ?st0 = []" by (simp add: results_lit_list starts_with_def HasPrefix_def)
    then have "results rePgVersion ?st0 = []" by (simp add: rePgVersion_unfold)
    with False va show ?thesis by simp
  next
    case hp: True
    define st1 where "st1 = step ?st0 ''--''"
    have l1: "results (lit ''--'') ?st0 = [st1]"
      using hp by (simp add: results_lit_list starts_with_def HasPrefix_def st1_def)
    have r0: "results rePgVersion ?st0 = results ?R1 st1"
      unfolding rePgVersion_unfold results_Seq_list[of "lit ''--''"] l1 by simp
    have st1r: "m_rest st1 = s1" "m_pos st1 = p + 2" "m_caps st1 = []"
      by (simp_all add: st1_def s1_def numeral_2_eq_2)
    define z1 where "z1 = step st1 ws"
    from results_Star_first[of CSpace st1] obtain zs where
      zs: "results ws0 st1 = z1 # zs" "\<forall>z \<in> set zs. m_rest z \<noteq> [] \<and> cmatch CSpace (hd (m_rest z))"
      unfolding ws0_def z1_def ws_def st1r by blast
    have dead: "\<forall>z \<in> set zs. results ?R2 z = []"
    proof
      fix z assume "z \<in> set zs"
      with zs(2) obtain x xs where x: "m_rest z = x # xs" "cmatch CSpace x"
        by (cases "m_rest z") auto
      then have "x \<noteq> CHR ''D''" by auto
      with x(1) have "\<not> starts_with z version_phrase"
        by (simp add: starts_with_def version_phrase_def)
      then have "results (lit version_phrase) z = []" by (simp add: results_lit_list)
      then show "results ?R2 z = []" by (simp add: results_Seq_list)
    qed
    have r1: "results ?R1 st1 = results ?R2 z1"
      unfolding results_Seq_list[of ws0] zs(1) by (rule concat_first[OF dead])
    have z1r: "m_rest z1 = found" "m_pos z1 = p + 2 + length ws" "m_caps z1 = []"
      by (simp_all add: z1_def st1r fd)
    show ?thesis
    proof (cases "HasPrefix found version_phrase")
      case False
      then have "results (lit version_phrase) z1 = []"
        by (simp add: results_lit_list starts_with_def HasPrefix_def z1r)
      then have "results ?R2 z1 = []" by (simp add: results_Seq_list)
      with r0 r1 False va show ?thesis by simp
    next
      case hf: True
      define z3 where "z3 = step z1 version_phrase"
      have l3: "results (lit version_phrase) z1 = [z3]"
        using hf by (simp add: results_lit_list starts_with_def HasPrefix_def z1r z3_def)
      have r2: "results ?R2 z1 = results ?R3 z3"
        unfolding results_Seq_list[of "lit version_phrase"] l3 by simp
      have r3: "results ?R3 z3 = results (Grp 1 nonspace1) z3"
        unfolding results_Seq_list[of "Grp 1 nonspace1"] by (rule concat_results_Eps)
      have z3r: "m_rest z3 = t" "m_pos z3 = p + 2 + length ws + length version_phrase" "m_caps z3 = []"
        by (simp_all add: z3_def z1r t_def)
      have ns: "results nonspace1 z3 =
                  concat (map (results (Star (CNeg CSpace))) (results (Ch (CNeg CSpace)) z3))"
        by (simp add: nonspace1_def plus_def results_Seq_list)
      show ?thesis
      proof (cases "tok = []")
        case True
        then have "t = [] \<or> cmatch CSpace (hd t)"
          unfolding tok_def by (cases t) (auto split: if_splits)
        then have "results (Ch (CNeg CSpace)) z3 = []"
          by (auto simp: results_Ch_list z3r)
        then have "results (Grp 1 nonspace1) z3 = []" by (simp add: results_Grp_list ns)
        with r0 r1 r2 r3 True va show ?thesis by simp
      next
        case False
        then obtain x xs where t: "t = x # xs" and nx: "\<not> cmatch CSpace x"
          unfolding tok_def by (cases t) (auto split: if_splits)
        define z4 where "z4 = step z3 [x]"
        have c4: "results (Ch (CNeg CSpace)) z3 = [z4]"
          using nx by (simp add: results_Ch_list z3r t z4_def)
        define run where "run = takeWhile (cmatch (CNeg CSpace)) xs"
        have z4r: "m_rest z4 = xs" "m_pos z4 = m_pos z3 + 1" "m_caps z4 = []"
          by (simp_all add: z4_def z3r t)
        from results_Star_first[of "CNeg CSpace" z4] obtain zs' where
          zs': "results (Star (CNeg CSpace)) z4 = step z4 run # zs'"
          unfolding run_def z4r by blast
        have n1: "results nonspace1 z3 = step z4 run # zs'"
          unfolding ns c4 using zs' by simp
        define y where "y = MState (m_pos (step z4 run)) (m_prev (step z4 run)) (m_rest (step z4 run))
                              ((1, m_pos z3, m_pos (step z4 run)) # m_caps (step z4 run))"
        have g: "\<exists>ys. results (Grp 1 nonspace1) z3 = y # ys"
          unfolding results_Grp_list n1 y_def by simp
        have "cmatch (CNeg CSpace) = (\<lambda>c. \<not> cmatch CSpace c)" by (rule ext) simp
        then have run_tok: "tok = x # run"
          unfolding tok_def t run_def using nx by simp
        have caps: "m_caps y = [(1, m_pos z3, m_pos z3 + length tok)]"
          by (simp add: y_def z4r run_tok)
        define q where "q = 2 + length ws + length version_phrase"
        have pq: "m_pos z3 = p + q" by (simp add: z3r q_def)
        have "drop q s = drop (length version_phrase) (drop (length ws) (drop 2 s))"
          by (simp add: q_def add.commute add.left_commute)
        also have "\<dots> = t" by (simp add: t_def fd s1_def)
        finally have dq: "drop q s = t" .
        have tk: "take (length tok) (drop q s) = tok"
          unfolding dq tok_def by (rule takeWhile_eq_take[symmetric])
        from g obtain ys where "results rePgVersion ?st0 = y # ys" using r0 r1 r2 r3 by auto
        with caps pq tk have
          "\<exists>y ys q. results rePgVersion ?st0 = y # ys \<and>
                m_caps y = [(1, p + q, p + q + length tok)] \<and> take (length tok) (drop q s) = tok"
          by auto
        with hp hf False va show ?thesis by simp
      qed
    qed
  qed
qed

lemma dumped_version_search:
  "(dumped_version s = None \<longrightarrow> search_from rePgVersion p pv s = None) \<and>
   (\<forall>token. dumped_version s = Some token \<longrightarrow>
      (\<exists>m q. search_from rePgVersion p pv s = Some m \<and>
              map_of m 1 = Some (p + q, p + q + length token) \<and>
              take (length token) (drop q s) = token))"
proof (induction s arbitrary: p pv)
  case Nil
  have "version_at [] = None" by (simp add: version_at_def HasPrefix_def)
  with pgversion_results[of "[]" p pv] have "results rePgVersion (MState p pv [] []) = []" by simp
  then show ?case by (simp add: rmatch_results)
next
  case (Cons c cs)
  show ?case
  proof (cases "version_at (c # cs)")
    case None
    with pgversion_results[of "c # cs" p pv]
    have "results rePgVersion (MState p pv (c # cs) []) = []" by simp
    then have sf: "search_from rePgVersion p pv (c # cs) = search_from rePgVersion (Suc p) (Some c) cs"
      by (simp add: rmatch_results)
    from None have dv: "dumped_version (c # cs) = dumped_version cs" by simp
    note ih = Cons.IH[of "Suc p" "Some c"]
    show ?thesis
    proof (intro conjI impI allI)
      assume "dumped_version (c # cs) = None"
      with dv ih sf show "search_from rePgVersion p pv (c # cs) = None" by simp
    next
      fix token
      assume "dumped_version (c # cs) = Some token"
      with dv ih obtain m q where
        m: "search_from rePgVersion (Suc p) (Some c) cs = Some m"
           "map_of m 1 = Some (Suc p + q, Suc p + q + length token)"
           "take (length token) (drop q cs) = token"
        by auto
      have "search_from rePgVersion p pv (c # cs) = Some m \<and>
            map_of m 1 = Some (p + Suc q, p + Suc q + length token) \<and>
            take (length token) (drop (Suc q) (c # cs)) = token"
        using m sf by simp
      then show "\<exists>m q. search_from rePgVersion p pv (c # cs) = Some m \<and>
              map_of m 1 = Some (p + q, p + q + length token) \<and>
              take (length token) (drop q (c # cs)) = token"
        by blast
    qed
  next
    case (Some tok)
    with pgversion_results[of "c # cs" p pv] obtain y ys q where
      y: "results rePgVersion (MState p pv (c # cs) []) = y # ys"
         "m_caps y = [(1, p + q, p + q + length tok)]"
         "take (length tok) (drop q (c # cs)) = tok"
      by auto
    have "rmatch rePgVersion (MState p pv (c # cs) []) Some = Some y"
      by (simp add: rmatch_results y(1))
    then have sf: "search_from rePgVersion p pv (c # cs) = Some ((0, p, m_pos y) # m_caps y)"
      by simp
    have mo: "map_of ((0, p, m_pos y) # m_caps y) 1 = Some (p + q, p + q + length tok)"
      by (simp add: y(2))
    from Some have dv: "dumped_version (c # cs) = Some tok" by simp
    from sf mo y(3) dv show ?thesis by auto
  qed
qed

lemma FindIndex_dumped_version:
  "(dumped_version s = None \<longrightarrow> FindIndex rePgVersion s = None) \<and>
   (\<forall>token. dumped_version s = Some token \<longrightarrow>
      (\<exists>m. FindIndex rePgVersion s = Some m \<and> grp s m 1 = token))"
proof (intro conjI impI allI)
  assume "dumped_version s = None"
  with dumped_version_search[of s 0 None] show "FindIndex rePgVersion s = None"
    by (simp add: FindIndex_def)
next
  fix token
  assume "dumped_version s = Some token"
  with dumped_version_search[of s 0 None] obtain m q where
    m: "search_from rePgVersion 0 None s = Some m" "map_of m 1 = Some (q, q + length token)"
       "take (length token) (drop q s) = token"
    by auto
  have "grp s m 1 = token" using m(2,3) by (simp add: grp_def)
  with m(1) show "\<exists>m. FindIndex rePgVersion s = Some m \<and> grp s m 1 = token"
    by (simp add: FindIndex_def)
qed

lemma version_line_iff:
  "version_line l \<longleftrightarrow> HasPrefix (TrimSpace l) ''--'' \<and> dumped_version (TrimSpace l) \<noteq> None"
  using FindIndex_dumped_version[of "TrimSpace l"]
  by (cases "dumped_version (TrimSpace l)") (auto simp: version_line_def MatchString_def)

lemma version_token_eq:
  "dumped_version (TrimSpace l) = Some token \<Longrightarrow> version_token l = token"
  using FindIndex_dumped_version[of "TrimSpace l"] by (auto simp: version_token_def)

lemma version_at_shape:
  assumes "version_at s = Some token"
  shows "\<exists>ws b. s = ''--'' @ ws @ version_phrase @ token @ b \<and> list_all (cmatch CSpace) ws \<and>
               token \<noteq> [] \<and> list_all (\<lambda>c. \<not> cmatch CSpace c) token \<and>
               (b = [] \<or> cmatch CSpace (hd b))"
proof -
  define s1 where "s1 = drop 2 s"
  define ws where "ws = takeWhile (cmatch CSpace) s1"
  define found where "found = dropWhile (cmatch CSpace) s1"
  define t where "t = drop (length version_phrase) found"
  define b where "b = dropWhile (\<lambda>c. \<not> cmatch CSpace c) t"
  from assms have hp: "HasPrefix s ''--''" and hf: "HasPrefix found version_phrase"
    and tok: "token = takeWhile (\<lambda>c. \<not> cmatch CSpace c) t" and ne: "token \<noteq> []"
    by (auto simp: version_at_def Let_def s1_def found_def t_def split: if_splits)
  from hp have a: "s = ''--'' @ s1"
    unfolding HasPrefix_def s1_def by (metis append_take_drop_id length_Cons list.size(3) numeral_2_eq_2)
  have b1: "s1 = ws @ found" by (simp add: ws_def found_def)
  from hf have c: "found = version_phrase @ t"
    unfolding HasPrefix_def t_def by (metis append_take_drop_id)
  have d: "t = token @ b" by (simp add: tok b_def)
  have e: "b = [] \<or> cmatch CSpace (hd b)"
  proof (cases "b = []")
    case True
    then show ?thesis by simp
  next
    case False
    then have "\<not> (\<not> cmatch CSpace (hd b))" unfolding b_def by (rule hd_dropWhile)
    then show ?thesis by simp
  qed
  have f: "list_all (cmatch CSpace) ws" unfolding ws_def by (rule list_all_takeWhile)
  have g: "list_all (\<lambda>c. \<not> cmatch CSpace c) token" unfolding tok by (rule list_all_takeWhile)
  have "s = ''--'' @ ws @ version_phrase @ token @ b"
    by (subst a, subst b1, subst c, subst d) simp
  with e f g ne show ?thesis by blast
qed

lemma dumped_version_shape:
  "dumped_version s = Some token \<Longrightarrow>
     \<exists>a ws b. s = a @ ''--'' @ ws @ version_phrase @ token @ b \<and> list_all (cmatch CSpace) ws \<and>
              token \<noteq> [] \<and> list_all (\<lambda>c. \<not> cmatch CSpace c) token \<and>
              (b = [] \<or> cmatch CSpace (hd b))"
proof (induction s)
  case Nil
  then show ?case by simp
next
  case (Cons c cs)
  show ?case
  proof (cases "version_at (c # cs)")
    case None
    with Cons.prems have "dumped_version cs = Some token" by simp
    from Cons.IH[OF this] obtain a ws b where
      s: "cs = a @ ''--'' @ ws @ version_phrase @ token @ b" and
      r: "list_all (cmatch CSpace) ws" "token \<noteq> []" "list_all (\<lambda>c. \<not> cmatch CSpace c) token"
         "b = [] \<or> cmatch CSpace (hd b)"
      by blast
    from s have "c # cs = (c # a) @ ''--'' @ ws @ version_phrase @ token @ b" by simp
    with r show ?thesis by blast
  next
    case (Some tok)
    with Cons.prems have "tok = token" by simp
    with Some version_at_shape[of "c # cs" token] obtain ws b where
      "c # cs = [] @ ''--'' @ ws @ version_phrase @ token @ b" "list_all (cmatch CSpace) ws"
      "token \<noteq> []" "list_all (\<lambda>c. \<not> cmatch CSpace c) token" "b = [] \<or> cmatch CSpace (hd b)"
      by auto
    then show ?thesis by blast
  qed
qed

lemma seg_fold_dumped_version:
  assumes "PgVersion (seg_schema st) = []"
    and "list_all (\<lambda>x. \<not> (HasPrefix (TrimSpace x) ''--'' \<and> dumped_version (TrimSpace x) \<noteq> None)) pre"
    and "HasPrefix (TrimSpace l) ''--''" and "dumped_version (TrimSpace l) = Some token"
  shows "PgVersion (seg_schema (foldl seg_step st (pre @ l # post))) = token"
proof -
  from assms(2) have a: "list_all (\<lambda>x. \<not> version_line x) pre"
    by (simp add: version_line_iff list_all_iff)
  from assms(3,4) have b: "version_line l" by (simp add: version_line_iff)
  from seg_fold_first_version[OF assms(1) a b, of post] version_token_eq[OF assms(4)]
  show ?thesis by simp
qed

text \<open>
  C5, as the claim states it: the version string is the remainder of the line after
  \<open>Dumped from database version\<close>, verbatim. The header line below has the remainder
  \<open>16.2 (Debian 16.2-1.pgdg120+1)\<close>; the captured version is \<open>16.2\<close>.
\<close>

theorem version_is_first_token_only:
  "version_header = ''-- Dumped from database version '' @ ''16.2 (Debian 16.2-1.pgdg120+1)'' \<and>
   ParseDump (Some version_header) = Inr (empty_schema\<lparr>PgVersion := ''16.2''\<rparr>)"
  by code_simp

text \<open>
  C5, amended: the first comment line in which the words \<open>Dumped from database version\<close>
  follow two hyphens and any white space, and are followed by a blank and a byte that is
  not white space, sets the version string of the model to the token after those words:
  the bytes up to the next white space or the end of the line (the first token of the
  remainder, not the remainder). No later line changes the version string, and no
  statement does: it is the version of the model that \<open>ParseDump\<close> returns.
\<close>

theorem first_version_line_wins:
  assumes "Split text newline = pre @ l # post"
    and "list_all (\<lambda>x. \<not> (HasPrefix (TrimSpace x) ''--'' \<and> dumped_version (TrimSpace x) \<noteq> None)) pre"
    and "HasPrefix (TrimSpace l) ''--''" and "dumped_version (TrimSpace l) = Some token"
    and "ParseDump (Some text) = Inr sch"
  shows "PgVersion sch = token \<and>
         (\<exists>a ws b. TrimSpace l = a @ ''--'' @ ws @ version_phrase @ token @ b \<and>
                   list_all (cmatch CSpace) ws \<and> token \<noteq> [] \<and>
                   list_all (\<lambda>c. \<not> cmatch CSpace c) token \<and> (b = [] \<or> cmatch CSpace (hd b)))"
proof -
  have "PgVersion (snd (splitStatements text empty_schema ''public'')) = token"
    using seg_fold_dumped_version[of "seg_init empty_schema ''public''" pre l token post, OF _ assms(2,3,4)]
    by (simp add: splitStatements_def Let_def assms(1) seg_init_def empty_schema_def)
  with process_all_PgVersion[OF ParseDump_Inr[OF assms(5)]]
  have "PgVersion sch = token" by simp
  with dumped_version_shape[OF assms(4)] show ?thesis by simp
qed

theorem first_version_line_wins_witness:
  "Split version_dump newline = [] @ version_header # [''-- Dumped from database version 99''] \<and>
   HasPrefix (TrimSpace version_header) ''--'' \<and>
   dumped_version (TrimSpace version_header) = Some ''16.2'' \<and>
   ParseDump (Some version_dump) = Inr (empty_schema\<lparr>PgVersion := ''16.2''\<rparr>)"
proof -
  have a: "Split version_dump newline = [] @ version_header # [''-- Dumped from database version 99'']"
    by code_simp
  have b: "list_all (\<lambda>x. \<not> (HasPrefix (TrimSpace x) ''--'' \<and> dumped_version (TrimSpace x) \<noteq> None)) []"
    by simp
  have c: "HasPrefix (TrimSpace version_header) ''--''" by code_simp
  have d: "dumped_version (TrimSpace version_header) = Some ''16.2''" by code_simp
  have e: "ParseDump (Some version_dump) = Inr (empty_schema\<lparr>PgVersion := ''16.2''\<rparr>)" by code_simp
  from first_version_line_wins[OF a b c d e]
  have "PgVersion (empty_schema\<lparr>PgVersion := ''16.2''\<rparr>) = ''16.2''" by simp
  with a c d e show ?thesis by simp
qed

section \<open>Excluded schemas\<close>






section \<open>The cycle flag of a sequence\<close>





lemma results_empty_iff: "results r st = [] \<longleftrightarrow> (\<forall>y. y \<notin> set (results r st))"
  by (cases "results r st") auto
















end
